theory Spec2Isabelle
  imports Main "HOL-Library.Sublist" "HOL-Library.Word"
begin

section \<open>The query cursor of the PostgreSQL data store\<close>

text \<open>
  The C functions \<^verbatim>\<open>db_initialize_state\<close>, \<^verbatim>\<open>db_destroy_state\<close>,
  \<^verbatim>\<open>db_cursor_next\<close> and \<^verbatim>\<open>pbs_db_search\<close> are embedded as functions that pass
  the mutable parts of the program explicitly.

  \<^item> The cursor \<^verbatim>\<open>db_query_state_t\<close> is a record with the four fields that
    \<^verbatim>\<open>db_initialize_state\<close> sets (the struct is declared in a header that is not among
    the sources). \<^verbatim>\<open>row\<close> and \<^verbatim>\<open>count\<close> are C \<^verbatim>\<open>int\<close>s; the only arithmetic on them is
    \<^verbatim>\<open>state->row++\<close> under the guard \<^verbatim>\<open>row < count\<close>, which cannot leave the range of
    \<^verbatim>\<open>int\<close>, so they are mathematical integers here. So is \<^verbatim>\<open>totcount\<close>, which grows by
    at most one per row fetched.
  \<^item> Everything behind the connection handle and the server's own structures is an
    abstract value of type \<open>'w\<close>; the object wrapper \<^verbatim>\<open>pbs_db_obj_info_t\<close> is a record
    of the type tag and the payload.
  \<^item> The per-object functions stored in \<^verbatim>\<open>db_fn_arr\<close> (\<^verbatim>\<open>pbs_db_find_job\<close>,
    \<^verbatim>\<open>pbs_db_next_job\<close>, ...) live in other files. They are parameters, collected in the
    record \<open>db_modules\<close>. A find function may rewrite the cursor; a next function reads
    the cursor and fills the object.
  \<^item> A \<^verbatim>\<open>NULL\<close> entry of \<^verbatim>\<open>db_fn_arr\<close> is \<open>None\<close>; calling through it is the fault
    \<open>Null_function_call\<close>. (\<open>db_fault\<close> lists the faults of the whole file: a call
    through a null function pointer, a string function applied to \<^verbatim>\<open>NULL\<close>, a write
    past the end of an allocated buffer, and a format string the model does not cover.)
  \<^item> Every call that leaves these four functions (allocation, find, next, callback,
    \<^verbatim>\<open>PQclear\<close>, \<^verbatim>\<open>free\<close>) is appended to the call history \<open>calls\<close> of the world, so
    that "how often" and "before returning" can be stated. A fetch is recorded with
    the row it read, a callback with the value it stored in \<^verbatim>\<open>refreshed\<close>.
\<close>

datatype pbs_db_obj_type =
    PBS_DB_SVR
  | PBS_DB_SCHED
  | PBS_DB_QUE
  | PBS_DB_NODE
  | PBS_DB_MOMINFO_TIME
  | PBS_DB_JOB
  | PBS_DB_JOBSCR
  | PBS_DB_RESV

record 'p pbs_db_obj_info =
  pbs_db_obj_type :: pbs_db_obj_type
  pbs_db_un :: 'p

type_synonym pgresult_handle = nat

type_synonym ('w, 'p) query_cb_t =
  "'w \<Rightarrow> 'p pbs_db_obj_info \<Rightarrow> int \<times> 'w \<times> 'p pbs_db_obj_info"

record ('w, 'p) db_query_state =
  res :: "pgresult_handle option"
  row :: int
  count :: int
  query_cb :: "('w, 'p) query_cb_t"

type_synonym ('w, 'p, 'q) find_fn =
  "'w \<Rightarrow> ('w, 'p) db_query_state \<Rightarrow> 'p pbs_db_obj_info \<Rightarrow> 'q
     \<Rightarrow> int \<times> 'w \<times> ('w, 'p) db_query_state"

type_synonym ('w, 'p) next_fn =
  "'w \<Rightarrow> ('w, 'p) db_query_state \<Rightarrow> 'p pbs_db_obj_info
     \<Rightarrow> int \<times> 'w \<times> 'p pbs_db_obj_info"

record ('w, 'p, 'q) db_modules =
  pbs_db_find_sched :: "('w, 'p, 'q) find_fn"
  pbs_db_next_sched :: "('w, 'p) next_fn"
  pbs_db_find_que :: "('w, 'p, 'q) find_fn"
  pbs_db_next_que :: "('w, 'p) next_fn"
  pbs_db_find_node :: "('w, 'p, 'q) find_fn"
  pbs_db_next_node :: "('w, 'p) next_fn"
  pbs_db_find_job :: "('w, 'p, 'q) find_fn"
  pbs_db_next_job :: "('w, 'p) next_fn"
  pbs_db_find_resv :: "('w, 'p, 'q) find_fn"
  pbs_db_next_resv :: "('w, 'p) next_fn"

record ('w, 'p, 'q) pg_db_fn =
  pbs_db_find_obj :: "('w, 'p, 'q) find_fn option"
  pbs_db_next_obj :: "('w, 'p) next_fn option"

text \<open>
  The table \<^verbatim>\<open>db_fn_arr\<close>, row by row; of its six columns the find and the next
  column are the ones the cursor uses.
\<close>

fun db_fn_arr :: "('w, 'p, 'q) db_modules \<Rightarrow> pbs_db_obj_type \<Rightarrow> ('w, 'p, 'q) pg_db_fn" where
  "db_fn_arr m PBS_DB_SVR = \<lparr>pbs_db_find_obj = None, pbs_db_next_obj = None\<rparr>"
| "db_fn_arr m PBS_DB_SCHED =
     \<lparr>pbs_db_find_obj = Some (pbs_db_find_sched m), pbs_db_next_obj = Some (pbs_db_next_sched m)\<rparr>"
| "db_fn_arr m PBS_DB_QUE =
     \<lparr>pbs_db_find_obj = Some (pbs_db_find_que m), pbs_db_next_obj = Some (pbs_db_next_que m)\<rparr>"
| "db_fn_arr m PBS_DB_NODE =
     \<lparr>pbs_db_find_obj = Some (pbs_db_find_node m), pbs_db_next_obj = Some (pbs_db_next_node m)\<rparr>"
| "db_fn_arr m PBS_DB_MOMINFO_TIME = \<lparr>pbs_db_find_obj = None, pbs_db_next_obj = None\<rparr>"
| "db_fn_arr m PBS_DB_JOB =
     \<lparr>pbs_db_find_obj = Some (pbs_db_find_job m), pbs_db_next_obj = Some (pbs_db_next_job m)\<rparr>"
| "db_fn_arr m PBS_DB_JOBSCR = \<lparr>pbs_db_find_obj = None, pbs_db_next_obj = None\<rparr>"
| "db_fn_arr m PBS_DB_RESV =
     \<lparr>pbs_db_find_obj = Some (pbs_db_find_resv m), pbs_db_next_obj = Some (pbs_db_next_resv m)\<rparr>"

datatype call =
    Malloc_state
  | Find_obj pbs_db_obj_type
  | Next_obj pbs_db_obj_type int
  | Query_cb int
  | PQclear pgresult_handle
  | Free_state

record 'w world =
  ext :: 'w
  calls :: "call list"

datatype db_fault = Null_function_call | Null_string_read | Buffer_overflow | Bad_format

definition note_call :: "call \<Rightarrow> 'w world \<Rightarrow> 'w world" where
  "note_call c w = w\<lparr>calls := calls w @ [c]\<rparr>"

text \<open>
  \<^verbatim>\<open>db_initialize_state\<close>: the Boolean is the answer of \<^verbatim>\<open>malloc\<close>; \<open>None\<close> is the
  \<^verbatim>\<open>NULL\<close> the function returns when the allocation fails.
\<close>

definition db_initialize_state ::
  "bool \<Rightarrow> ('w, 'p) query_cb_t \<Rightarrow> ('w, 'p) db_query_state option" where
  "db_initialize_state malloc_ok cb =
     (if \<not> malloc_ok then None
      else Some \<lparr>res = None, row = - 1, count = - 1, query_cb = cb\<rparr>)"

definition db_destroy_state ::
  "'w world \<Rightarrow> ('w, 'p) db_query_state option \<Rightarrow> 'w world" where
  "db_destroy_state w st =
     (case st of
        None \<Rightarrow> w
      | Some state \<Rightarrow>
          note_call Free_state
            (case res state of None \<Rightarrow> w | Some r \<Rightarrow> note_call (PQclear r) w))"

text \<open>
  \<^verbatim>\<open>db_cursor_next\<close> returns the return code together with the world, the cursor and
  the object as the call leaves them.
\<close>

definition db_cursor_next ::
  "('w, 'p, 'q) db_modules \<Rightarrow> 'w world \<Rightarrow> ('w, 'p) db_query_state \<Rightarrow> 'p pbs_db_obj_info
     \<Rightarrow> db_fault + (int \<times> 'w world \<times> ('w, 'p) db_query_state \<times> 'p pbs_db_obj_info)" where
  "db_cursor_next m w state obj =
     (if row state < count state then
        (case pbs_db_next_obj (db_fn_arr m (pbs_db_obj_type obj)) of
           None \<Rightarrow> Inl Null_function_call
         | Some next_obj \<Rightarrow>
             (case next_obj (ext w) state obj of
                (ret, e', obj') \<Rightarrow>
                  Inr (ret,
                       note_call (Next_obj (pbs_db_obj_type obj) (row state)) (w\<lparr>ext := e'\<rparr>),
                       state\<lparr>row := row state + 1\<rparr>,
                       obj')))
      else Inr (1, w, state, obj))"

text \<open>
  The loop of \<^verbatim>\<open>pbs_db_search\<close>:
  \<^verbatim>\<open>while ((rc = db_cursor_next(conn, st, obj)) == 0) { query_cb(obj, &refreshed);
  if (refreshed) totcount++; }\<close>.
  The callback reports \<^verbatim>\<open>refreshed\<close> as its first result.
\<close>

function search_loop ::
  "('w, 'p, 'q) db_modules \<Rightarrow> ('w, 'p) query_cb_t \<Rightarrow> 'w world \<Rightarrow> ('w, 'p) db_query_state
     \<Rightarrow> 'p pbs_db_obj_info \<Rightarrow> int
     \<Rightarrow> db_fault + (int \<times> 'w world \<times> ('w, 'p) db_query_state \<times> 'p pbs_db_obj_info)" where
  "search_loop m cb w state obj totcount =
     (case db_cursor_next m w state obj of
        Inl f \<Rightarrow> Inl f
      | Inr (rc, w1, state1, obj1) \<Rightarrow>
          if rc = 0 then
            (case cb (ext w1) obj1 of
               (refreshed, e2, obj2) \<Rightarrow>
                 search_loop m cb (note_call (Query_cb refreshed) (w1\<lparr>ext := e2\<rparr>)) state1 obj2
                   (if refreshed \<noteq> 0 then totcount + 1 else totcount))
          else Inr (totcount, w1, state1, obj1))"
  by pat_completeness auto
termination
proof (relation "measure (\<lambda>(m, cb, w, state, obj, totcount). nat (count state - row state))")
  show "wf (measure (\<lambda>(m :: ('w, 'p, 'q) db_modules, cb :: ('w, 'p) query_cb_t, w :: 'w world,
      state :: ('w, 'p) db_query_state, obj :: 'p pbs_db_obj_info, totcount :: int).
      nat (count state - row state)))"
    by simp
next
  fix m :: "('w, 'p, 'q) db_modules" and cb :: "('w, 'p) query_cb_t" and w :: "'w world"
    and state :: "('w, 'p) db_query_state" and obj :: "'p pbs_db_obj_info" and totcount :: int
    and x2 rc y w1 ya state1 obj1 x yb yc e2 obj2 and refreshed :: int
  assume "db_cursor_next m w state obj = Inr x2" "(rc, y) = x2" "(w1, ya) = y"
    "(state1, obj1) = ya" "rc = 0"
  then have "row state < count state \<and> state1 = state\<lparr>row := row state + 1\<rparr>"
    by (auto simp: db_cursor_next_def split: if_splits option.splits prod.splits)
  then
  show "((m, cb, note_call (Query_cb refreshed) (w1\<lparr>ext := e2\<rparr>), state1, obj2,
          if refreshed \<noteq> 0 then totcount + 1 else totcount),
         m, cb, w, state, obj, totcount)
        \<in> measure (\<lambda>(m, cb, w, state, obj, totcount). nat (count state - row state))"
    by auto
qed

declare search_loop.simps [simp del]

text \<open>
  \<^verbatim>\<open>pbs_db_search\<close>. The result is the return value and the world at the return.
\<close>

definition pbs_db_search ::
  "('w, 'p, 'q) db_modules \<Rightarrow> bool \<Rightarrow> 'w world \<Rightarrow> 'p pbs_db_obj_info \<Rightarrow> 'q
     \<Rightarrow> ('w, 'p) query_cb_t \<Rightarrow> db_fault + (int \<times> 'w world)" where
  "pbs_db_search m malloc_ok w obj opts cb =
     (case db_initialize_state malloc_ok cb of
        None \<Rightarrow> Inr (- 1, w)
      | Some st \<Rightarrow>
          (case pbs_db_find_obj (db_fn_arr m (pbs_db_obj_type obj)) of
             None \<Rightarrow> Inl Null_function_call
           | Some find_obj \<Rightarrow>
               (case find_obj (ext w) st obj opts of
                  (ret, e1, st1) \<Rightarrow>
                    let w1 = note_call (Find_obj (pbs_db_obj_type obj))
                               (note_call Malloc_state (w\<lparr>ext := e1\<rparr>))
                    in if ret = - 1 then Inr (- 1, db_destroy_state w1 (Some st1))
                       else (case search_loop m cb w1 st1 obj 0 of
                               Inl f \<Rightarrow> Inl f
                             | Inr (totcount, w2, st2, obj2) \<Rightarrow>
                                 Inr (totcount, db_destroy_state w2 (Some st2))))))"

subsection \<open>Observing the call history\<close>

fun is_fetch :: "call \<Rightarrow> bool" where
  "is_fetch (Next_obj k r) = True"
| "is_fetch c = False"

definition fetches :: "'w world \<Rightarrow> nat" where
  "fetches w = length (filter is_fetch (calls w))"

text \<open>
  The rows fetched, in the order of the calls; the number of calls of the callback; and
  the number of those that accepted their row (\<^verbatim>\<open>refreshed\<close> not 0).
\<close>

fun fetched_row :: "call \<Rightarrow> int list" where
  "fetched_row (Next_obj k r) = [r]"
| "fetched_row c = []"

definition fetched_rows :: "'w world \<Rightarrow> int list" where
  "fetched_rows w = concat (map fetched_row (calls w))"

fun is_callback :: "call \<Rightarrow> bool" where
  "is_callback (Query_cb v) = True"
| "is_callback c = False"

definition callbacks :: "'w world \<Rightarrow> nat" where
  "callbacks w = length (filter is_callback (calls w))"

fun is_accepted :: "call \<Rightarrow> bool" where
  "is_accepted (Query_cb v) = (v \<noteq> 0)"
| "is_accepted c = False"

definition accepted :: "'w world \<Rightarrow> nat" where
  "accepted w = length (filter is_accepted (calls w))"

text \<open>
  Draining a cursor is what the loop of \<^verbatim>\<open>pbs_db_search\<close> does: it calls
  \<^verbatim>\<open>db_cursor_next\<close> until the return code is not 0. \<open>drain_fetches\<close> is the number of
  per-row fetches the loop made.
\<close>

definition drain_fetches ::
  "('w, 'p, 'q) db_modules \<Rightarrow> ('w, 'p) query_cb_t \<Rightarrow> 'w world \<Rightarrow> ('w, 'p) db_query_state
     \<Rightarrow> 'p pbs_db_obj_info \<Rightarrow> nat option" where
  "drain_fetches m cb w state obj =
     (case search_loop m cb w state obj 0 of
        Inl f \<Rightarrow> None
      | Inr (t, w', state', obj') \<Rightarrow> Some (fetches w' - fetches w))"

subsection \<open>Sample collaborators\<close>

text \<open>
  Concrete find, next and callback functions over a trivial backend, used to run the
  cursor on explicit inputs: a find that positions the cursor on row 0 of three rows, a
  find that reports an error, a find over an empty result (it leaves the cursor as
  \<^verbatim>\<open>db_initialize_state\<close> made it and returns 1), a next that always succeeds, and a
  next that fails on row 1.
\<close>

definition sample_cb :: "(unit, unit) query_cb_t" where
  "sample_cb e ob = (1, e, ob)"

definition sample_find_three :: "(unit, unit, unit) find_fn" where
  "sample_find_three e st ob opts = (0, e, st\<lparr>res := Some 7, row := 0, count := 3\<rparr>)"

definition sample_find_error :: "(unit, unit, unit) find_fn" where
  "sample_find_error e st ob opts = (- 1, e, st)"

definition sample_find_empty :: "(unit, unit, unit) find_fn" where
  "sample_find_empty e st ob opts = (1, e, st)"

definition sample_next_ok :: "(unit, unit) next_fn" where
  "sample_next_ok e st ob = (0, e, ob)"

definition sample_next_fail :: "(unit, unit) next_fn" where
  "sample_next_fail e st ob = (if row st = 1 then - 1 else 0, e, ob)"

definition sample_modules ::
  "(unit, unit, unit) find_fn \<Rightarrow> (unit, unit) next_fn \<Rightarrow> (unit, unit, unit) db_modules" where
  "sample_modules f n =
     \<lparr>pbs_db_find_sched = f, pbs_db_next_sched = n,
      pbs_db_find_que = f, pbs_db_next_que = n,
      pbs_db_find_node = f, pbs_db_next_node = n,
      pbs_db_find_job = f, pbs_db_next_job = n,
      pbs_db_find_resv = f, pbs_db_next_resv = n\<rparr>"

definition sample_job :: "unit pbs_db_obj_info" where
  "sample_job = \<lparr>pbs_db_obj_type = PBS_DB_JOB, pbs_db_un = ()\<rparr>"

definition sample_world :: "unit world" where
  "sample_world = \<lparr>ext = (), calls = []\<rparr>"

definition sample_cursor :: "int \<Rightarrow> int \<Rightarrow> (unit, unit) db_query_state" where
  "sample_cursor r c = \<lparr>res = Some 7, row = r, count = c, query_cb = sample_cb\<rparr>"

section \<open>C library and libpq functions the data store calls\<close>

text \<open>
  C strings are lists of characters without the terminating NUL; a \<^verbatim>\<open>char *\<close> that may
  be \<^verbatim>\<open>NULL\<close> is a \<open>string option\<close>.
\<close>

subsection \<open>\<^verbatim>\<open>strstr\<close>, \<^verbatim>\<open>strtol\<close>, \<^verbatim>\<open>sprintf\<close>\<close>

text \<open>\<^verbatim>\<open>strstr(hay, needle) != NULL\<close>: the needle occurs as a contiguous part of the hay.\<close>

definition strstr :: "string \<Rightarrow> string \<Rightarrow> bool" where
  "strstr hay needle = sublist needle hay"

definition c_isspace :: "char \<Rightarrow> bool" where
  "c_isspace c = (c \<in> set [CHR '' '', CHR 0x09, CHR 0x0A, CHR 0x0B, CHR 0x0C, CHR 0x0D])"

definition c_isdigit :: "char \<Rightarrow> bool" where
  "c_isdigit c = (c \<in> set ''0123456789'')"

definition digit_char :: "nat \<Rightarrow> char" where
  "digit_char n = ''0123456789'' ! n"

definition digit_val :: "char \<Rightarrow> nat" where
  "digit_val c = of_char c - 48"

fun digits_value :: "nat \<Rightarrow> string \<Rightarrow> nat" where
  "digits_value acc [] = acc"
| "digits_value acc (c # cs) =
     (if c_isdigit c then digits_value (10 * acc + digit_val c) cs else acc)"

definition LONG_MAX :: int where
  "LONG_MAX = 2 ^ 63 - 1"

definition LONG_MIN :: int where
  "LONG_MIN = - (2 ^ 63)"

text \<open>
  \<^verbatim>\<open>strtol(s, NULL, 10)\<close> on a platform with 64-bit \<^verbatim>\<open>long\<close>: optional white space, an
  optional sign, then the longest run of decimal digits (none gives 0); a value out of
  range is clamped to \<^verbatim>\<open>LONG_MAX\<close> or \<^verbatim>\<open>LONG_MIN\<close>.
\<close>

definition strtol :: "string \<Rightarrow> int" where
  "strtol s =
     (let s1 = dropWhile c_isspace s;
          neg = (s1 \<noteq> [] \<and> hd s1 = CHR ''-'');
          s2 = (if s1 \<noteq> [] \<and> (hd s1 = CHR ''-'' \<or> hd s1 = CHR ''+'') then tl s1 else s1);
          v = int (digits_value 0 s2)
      in if neg then max LONG_MIN (- v) else min LONG_MAX v)"

text \<open>Decimal output of \<^verbatim>\<open>%d\<close>.\<close>

fun dec_nat :: "nat \<Rightarrow> string" where
  "dec_nat n = (if n < 10 then [digit_char n] else dec_nat (n div 10) @ [digit_char (n mod 10)])"

declare dec_nat.simps [simp del]

definition dec_int :: "int \<Rightarrow> string" where
  "dec_int i = (if i < 0 then CHR ''-'' # dec_nat (nat (- i)) else dec_nat (nat i))"

text \<open>
  The text \<^verbatim>\<open>sprintf\<close> produces for a format with \<^verbatim>\<open>%s\<close> and \<^verbatim>\<open>%d\<close> directives, the
  only ones these files use with it. Another directive, or an argument that does not fit
  its directive, is undefined in C and \<open>None\<close> here.
\<close>

datatype fmt_arg = Arg_s string | Arg_d int

fun c_format :: "string \<Rightarrow> fmt_arg list \<Rightarrow> string option" where
  "c_format [] args = Some []"
| "c_format [c] args = (if c = CHR ''%'' then None else Some [c])"
| "c_format (c # d # cs) args =
     (if c = CHR ''%'' then
        (if d = CHR ''s'' then
           (case args of
              Arg_s s # rest \<Rightarrow> map_option ((@) s) (c_format cs rest)
            | _ \<Rightarrow> None)
         else if d = CHR ''d'' then
           (case args of
              Arg_d i # rest \<Rightarrow> map_option ((@) (dec_int i)) (c_format cs rest)
            | _ \<Rightarrow> None)
         else None)
      else map_option ((#) c) (c_format (d # cs) args))"

subsection \<open>The libpq session and result\<close>

text \<open>
  Of a session (\<^verbatim>\<open>PGconn\<close>) the code reads the status and the error message; of a
  result (\<^verbatim>\<open>PGresult\<close>) the status, the command tuple count (a string), the number of
  rows and the SQLSTATE field. A \<^verbatim>\<open>NULL\<close> result has status \<^verbatim>\<open>PGRES_FATAL_ERROR\<close>, an
  empty tuple count, no rows and no fields, as libpq defines.
\<close>

datatype ConnStatusType = CONNECTION_OK | CONNECTION_BAD

record pg_conn =
  conn_status :: ConnStatusType
  errorMessage :: "string option"

datatype ExecStatusType =
    PGRES_EMPTY_QUERY
  | PGRES_COMMAND_OK
  | PGRES_TUPLES_OK
  | PGRES_COPY_OUT
  | PGRES_COPY_IN
  | PGRES_BAD_RESPONSE
  | PGRES_NONFATAL_ERROR
  | PGRES_FATAL_ERROR

record pg_result =
  resultStatus :: ExecStatusType
  cmdTuples :: "string option"
  ntuples :: int
  sqlstate :: "string option"

definition PQstatus :: "pg_conn \<Rightarrow> ConnStatusType" where
  "PQstatus conn = conn_status conn"

definition PQerrorMessage :: "pg_conn \<Rightarrow> string option" where
  "PQerrorMessage conn = errorMessage conn"

definition PQresultStatus :: "pg_result option \<Rightarrow> ExecStatusType" where
  "PQresultStatus r = (case r of None \<Rightarrow> PGRES_FATAL_ERROR | Some x \<Rightarrow> resultStatus x)"

definition PQcmdTuples :: "pg_result option \<Rightarrow> string option" where
  "PQcmdTuples r = (case r of None \<Rightarrow> Some [] | Some x \<Rightarrow> cmdTuples x)"

definition PQntuples :: "pg_result option \<Rightarrow> int" where
  "PQntuples r = (case r of None \<Rightarrow> 0 | Some x \<Rightarrow> ntuples x)"

definition PQresultErrorField_sqlstate :: "pg_result option \<Rightarrow> string option" where
  "PQresultErrorField_sqlstate r = (case r of None \<Rightarrow> None | Some x \<Rightarrow> sqlstate x)"

section \<open>Errors, connection failures and statement execution\<close>

text \<open>
  The error codes of \<^verbatim>\<open>pbs_db.h\<close>. The header is not among the sources; the names are the
  ones the code uses, taken as distinct values.
\<close>

datatype failcode =
    PBS_DB_SUCCESS
  | PBS_DB_CONNREFUSED
  | PBS_DB_AUTH_FAILED
  | PBS_DB_CONNFAILED
  | PBS_DB_NOMEM
  | PBS_DB_STILL_STARTING
  | PBS_DB_ERR
  | PBS_DB_OOM_ERR

text \<open>
  The loop of \<^verbatim>\<open>db_set_error\<close> that overwrites trailing \<^verbatim>\<open>'\r'\<close> and \<^verbatim>\<open>'\n'\<close> with NUL.
\<close>

definition trim_newlines :: "string \<Rightarrow> string" where
  "trim_newlines str = rev (dropWhile (\<lambda>c. c = CHR 0x0D \<or> c = CHR 0x0A) (rev str))"

text \<open>
  \<^verbatim>\<open>db_set_error\<close> frees the cached message and returns early, leaving the cache
  \<^verbatim>\<open>NULL\<close>, when the session has no error message; otherwise it cuts the trailing line
  ends off the session's own message, in place, and the cache becomes the formatted text.
  The result is the session after the call and the new value of \<^verbatim>\<open>*conn_db_err\<close>.
\<close>

definition db_set_error ::
  "pg_conn \<Rightarrow> string \<Rightarrow> string \<Rightarrow> string option \<Rightarrow> pg_conn \<times> string option" where
  "db_set_error conn fnc msg diag_msg =
     (case PQerrorMessage conn of
        None \<Rightarrow> (conn, None)
      | Some str \<Rightarrow>
          (conn\<lparr>errorMessage := Some (trim_newlines str)\<rparr>,
           c_format ''%s %s failed: %s %s''
             [Arg_s fnc, Arg_s msg, Arg_s (trim_newlines str),
              Arg_s (case diag_msg of None \<Rightarrow> [] | Some d \<Rightarrow> d)]))"

text \<open>
  \<^verbatim>\<open>is_conn_error\<close> takes the session (\<open>None\<close> for \<^verbatim>\<open>NULL\<close>), the value of
  \<^verbatim>\<open>*failcode\<close> and the cached error message, and returns its return value with the new
  \<^verbatim>\<open>*failcode\<close>, the new cache and the session after the call. \<^verbatim>\<open>strstr\<close> on a
  \<^verbatim>\<open>NULL\<close> cache is a fault.
\<close>

definition is_conn_error ::
  "pg_conn option \<Rightarrow> failcode \<Rightarrow> string option
     \<Rightarrow> db_fault + (int \<times> failcode \<times> string option \<times> pg_conn option)" where
  "is_conn_error conn failcode errmsg_cache =
     (case conn of
        None \<Rightarrow> Inr (1, PBS_DB_CONNFAILED, errmsg_cache, None)
      | Some c \<Rightarrow>
          if PQstatus c = CONNECTION_BAD then
            (case db_set_error c ''Connection:'' '''' (Some '''') of
               (c', None) \<Rightarrow> Inl Null_string_read
             | (c', Some cache) \<Rightarrow>
                 Inr (1,
                      (if strstr cache ''Connection refused''
                          \<or> strstr cache ''No such file or directory''
                       then PBS_DB_CONNREFUSED
                       else if strstr cache ''authentication'' then PBS_DB_AUTH_FAILED
                       else if strstr cache ''database system is starting up''
                       then PBS_DB_STILL_STARTING
                       else PBS_DB_CONNFAILED),
                      Some cache, Some c'))
          else Inr (0, failcode, errmsg_cache, Some c))"

text \<open>
  \<^verbatim>\<open>db_execute_str\<close> and \<^verbatim>\<open>db_cmd\<close>. The backend is the parameter \<open>exec\<close>
  (\<^verbatim>\<open>PQexec\<close>, or \<^verbatim>\<open>PQexecPrepared\<close> on the statement name, the parameter count and the
  parameter arrays of \<^verbatim>\<open>conn_data\<close>): it answers with a result and the session after the
  call. The functions return their return value, the session and the cached error
  message. (On every path the result is released with \<^verbatim>\<open>PQclear\<close> before the return;
  the release has no part in the return value and is left out.)
\<close>

definition db_execute_str ::
  "(pg_conn \<Rightarrow> string \<Rightarrow> pg_result option \<times> pg_conn) \<Rightarrow> pg_conn \<Rightarrow> string \<Rightarrow> string option
     \<Rightarrow> int \<times> pg_conn \<times> string option" where
  "db_execute_str exec conn sql errmsg_cache =
     (case exec conn sql of
        (result, conn') \<Rightarrow>
          let status = PQresultStatus result in
          if status \<noteq> PGRES_COMMAND_OK \<and> status \<noteq> PGRES_TUPLES_OK then
            (case db_set_error conn' (''Execution of string statement'' @ [CHR 0x0A]) sql
                    (PQresultErrorField_sqlstate result) of
               (conn'', cache) \<Rightarrow> (- 1, conn'', cache))
          else
            let rows_affected = PQcmdTuples result in
            if (case rows_affected of None \<Rightarrow> True | Some r \<Rightarrow> strtol r \<le> 0)
               \<and> PQntuples result \<le> 0
            then (1, conn', errmsg_cache)
            else (0, conn', errmsg_cache))"

definition db_cmd ::
  "(pg_conn \<Rightarrow> string \<Rightarrow> int \<Rightarrow> 'params \<Rightarrow> pg_result option \<times> pg_conn) \<Rightarrow> 'params
     \<Rightarrow> pg_conn \<Rightarrow> string \<Rightarrow> int \<Rightarrow> string option
     \<Rightarrow> int \<times> pg_conn \<times> string option" where
  "db_cmd exec conn_data conn stmt num_vars errmsg_cache =
     (case exec conn stmt num_vars conn_data of
        (result, conn') \<Rightarrow>
          if PQresultStatus result \<noteq> PGRES_COMMAND_OK then
            (case db_set_error conn' ''Execution of Prepared statement'' stmt
                    (PQresultErrorField_sqlstate result) of
               (conn'', cache) \<Rightarrow> (- 1, conn'', cache))
          else
            let rows_affected = PQcmdTuples result in
            if (case rows_affected of None \<Rightarrow> True | Some r \<Rightarrow> strtol r \<le> 0)
            then (1, conn', errmsg_cache)
            else (0, conn', errmsg_cache))"

subsection \<open>Sample sessions and results\<close>

definition sample_conn_ok :: pg_conn where
  "sample_conn_ok = \<lparr>conn_status = CONNECTION_OK, errorMessage = Some []\<rparr>"

definition sample_conn_bad :: "string \<Rightarrow> pg_conn" where
  "sample_conn_bad msg = \<lparr>conn_status = CONNECTION_BAD, errorMessage = Some msg\<rparr>"

definition sample_result :: "ExecStatusType \<Rightarrow> string \<Rightarrow> int \<Rightarrow> pg_result" where
  "sample_result st tuples n =
     \<lparr>resultStatus = st, cmdTuples = Some tuples, ntuples = n, sqlstate = None\<rparr>"

definition sample_exec_prepared ::
  "pg_result option \<Rightarrow> pg_conn \<Rightarrow> string \<Rightarrow> int \<Rightarrow> unit \<Rightarrow> pg_result option \<times> pg_conn" where
  "sample_exec_prepared r conn stmt n params = (r, conn)"

definition sample_exec_str ::
  "pg_result option \<Rightarrow> pg_conn \<Rightarrow> string \<Rightarrow> pg_result option \<times> pg_conn" where
  "sample_exec_str r conn sql = (r, conn)"

section \<open>Schema migration (svr\_migrate\_data.c)\<close>

text \<open>
  The server state \<^verbatim>\<open>svr_migrate_data\<close> works on: the datastore behind
  \<^verbatim>\<open>svr_db_conn\<close> (abstract), the cached error of the connection, the node array
  \<^verbatim>\<open>pbsndlist\<close> (a list; \<^verbatim>\<open>svr_totnodes\<close> is its length), and what has been written to
  the server log and to \<^verbatim>\<open>stderr\<close>. Of a node, the name and the \<^verbatim>\<open>nd_modified\<close> flag
  are kept.

  \<^verbatim>\<open>pbs_db_get_schema_version\<close>, \<^verbatim>\<open>pbsd_init\<close> and \<^verbatim>\<open>save_nodes_db\<close> are defined in
  other files, as are the constants \<^verbatim>\<open>RECOV_WARM\<close> and \<^verbatim>\<open>NODE_UPDATE_OTHERS\<close>; they are the
  fields of the parameter \<open>migrate_env\<close>. The version reader returns its return code, the
  major and the minor version and the state after the call; the other two return their
  return code and the state.
\<close>

record pbsnode =
  nd_name :: string
  nd_modified :: int

record 'b server_state =
  svr_db :: 'b
  conn_db_err :: "string option"
  pbsndlist :: "pbsnode list"
  log_lines :: "string list"
  stderr_text :: "string list"

record 'b migrate_env =
  pbs_db_get_schema_version :: "'b server_state \<Rightarrow> int \<times> int \<times> int \<times> 'b server_state"
  pbsd_init :: "int \<Rightarrow> 'b server_state \<Rightarrow> int \<times> 'b server_state"
  save_nodes_db :: "int \<Rightarrow> 'b server_state \<Rightarrow> int \<times> 'b server_state"
  RECOV_WARM :: int
  NODE_UPDATE_OTHERS :: int

definition log_err :: "string \<Rightarrow> 'b server_state \<Rightarrow> 'b server_state" where
  "log_err text s = s\<lparr>log_lines := log_lines s @ [text]\<rparr>"

definition fprintf_stderr :: "string \<Rightarrow> 'b server_state \<Rightarrow> 'b server_state" where
  "fprintf_stderr text s = s\<lparr>stderr_text := stderr_text s @ [text]\<rparr>"

text \<open>
  The loop \<^verbatim>\<open>for (i = 0; i < svr_totnodes; i++) pbsndlist[i]->nd_modified =
  NODE_UPDATE_OTHERS;\<close>
\<close>

primrec mark_nodes :: "int \<Rightarrow> pbsnode list \<Rightarrow> pbsnode list" where
  "mark_nodes v [] = []"
| "mark_nodes v (n # ns) = n\<lparr>nd_modified := v\<rparr> # mark_nodes v ns"

definition svr_migrate_data :: "'b migrate_env \<Rightarrow> 'b server_state \<Rightarrow> int \<times> 'b server_state" where
  "svr_migrate_data env s =
     (case pbs_db_get_schema_version env s of
        (rc, db_maj_ver, db_min_ver, s1) \<Rightarrow>
          if rc \<noteq> 0 then
            (let s2 = fprintf_stderr (''Failed to get the PBS datastore version'' @ [CHR 0x0A])
                        (log_err ''Failed to get PBS datastore version'' s1)
             in (- 1,
                 (case conn_db_err s2 of
                    None \<Rightarrow> s2
                  | Some e \<Rightarrow> log_err e (fprintf_stderr (''['' @ e @ '']'' @ [CHR 0x0A]) s2))))
          else if db_maj_ver = 1 \<and> db_min_ver = 0 then
            (case pbsd_init env (RECOV_WARM env) s1 of
               (rc1, s2) \<Rightarrow>
                 if rc1 \<noteq> 0 then (- 1, s2)
                 else
                   (case save_nodes_db env 0
                           (s2\<lparr>pbsndlist := mark_nodes (NODE_UPDATE_OTHERS env) (pbsndlist s2)\<rparr>) of
                      (rc2, s4) \<Rightarrow>
                        if rc2 \<noteq> 0 then (- 1, log_err ''save_nodes_db failed!'' s4)
                        else (0, s4)))
          else if db_maj_ver = 3 \<and> db_min_ver = 0 then (0, s1)
          else
            (let log_buffer = ''Cannot upgrade from PBS datastore version ''
                                @ dec_int db_maj_ver @ ''.'' @ dec_int db_min_ver
             in (- 1, fprintf_stderr (log_buffer @ [CHR 0x0A]) (log_err log_buffer s1))))"

subsection \<open>A sample server\<close>

text \<open>
  A datastore that is a list of saved node names with their flags, a warm start that
  loads two clean nodes, and a bulk save that writes every node with a non-zero flag.
\<close>

definition sample_server :: "(string \<times> int) list server_state" where
  "sample_server =
     \<lparr>svr_db = [], conn_db_err = None, pbsndlist = [], log_lines = [], stderr_text = []\<rparr>"

definition sample_pbsd_init ::
  "int \<Rightarrow> (string \<times> int) list server_state \<Rightarrow> int \<times> (string \<times> int) list server_state" where
  "sample_pbsd_init type s =
     (0, s\<lparr>pbsndlist := [\<lparr>nd_name = ''n1'', nd_modified = 0\<rparr>,
                          \<lparr>nd_name = ''n2'', nd_modified = 0\<rparr>]\<rparr>)"

definition sample_save_nodes_db ::
  "int \<Rightarrow> (string \<times> int) list server_state \<Rightarrow> int \<times> (string \<times> int) list server_state" where
  "sample_save_nodes_db changemodtime s =
     (0, s\<lparr>svr_db := svr_db s
             @ map (\<lambda>n. (nd_name n, nd_modified n)) (filter (\<lambda>n. nd_modified n \<noteq> 0) (pbsndlist s)),
           pbsndlist := mark_nodes 0 (pbsndlist s)\<rparr>)"

definition sample_migrate_env :: "int \<Rightarrow> int \<Rightarrow> (string \<times> int) list migrate_env" where
  "sample_migrate_env major minor =
     \<lparr>pbs_db_get_schema_version = (\<lambda>s. (0, major, minor, s)),
      pbsd_init = sample_pbsd_init,
      save_nodes_db = sample_save_nodes_db,
      RECOV_WARM = 1,
      NODE_UPDATE_OTHERS = 1\<rparr>"

section \<open>The connection string\<close>

subsection \<open>\<^verbatim>\<open>escape_passwd\<close>\<close>

text \<open>
  The loop of \<^verbatim>\<open>escape_passwd\<close>, with the text written to \<^verbatim>\<open>dest\<close> so far as an
  accumulator; \<^verbatim>\<open>p - dest\<close> is its length. The bound \<^verbatim>\<open>(p - dest) < len\<close> is tested once
  per source character, before the one or two bytes of that character are written.
\<close>

fun escape_passwd_loop :: "string \<Rightarrow> string \<Rightarrow> int \<Rightarrow> string" where
  "escape_passwd_loop written [] len = written"
| "escape_passwd_loop written (c # src) len =
     (if int (length written) < len then
        escape_passwd_loop
          ((if c = CHR 0x27 \<or> c = CHR 0x5C then written @ [CHR 0x5C] else written) @ [c]) src len
      else written)"

text \<open>
  \<^verbatim>\<open>escape_passwd(dest, src, len)\<close> with \<^verbatim>\<open>len\<close> the space in \<^verbatim>\<open>dest\<close>. The function
  ends with \<^verbatim>\<open>*p = '\0'\<close>; this is the write with the highest index, so all writes stay
  inside \<^verbatim>\<open>dest\<close> exactly when the text is shorter than \<^verbatim>\<open>len\<close>. Otherwise the C
  function writes past the buffer, which is the fault \<open>Buffer_overflow\<close>.
\<close>

definition escape_passwd :: "string \<Rightarrow> int \<Rightarrow> db_fault + string" where
  "escape_passwd src len =
     (let written = escape_passwd_loop [] src len
      in if int (length written) < len then Inr written else Inl Buffer_overflow)"

text \<open>
  The escaped form in the words of the specification: every backslash and every single
  quote is prefixed by a backslash, every other byte is kept. And its inverse: a
  backslash is dropped and the byte after it is kept.
\<close>

definition escaped :: "string \<Rightarrow> string" where
  "escaped src = concat (map (\<lambda>c. if c = CHR 0x27 \<or> c = CHR 0x5C then [CHR 0x5C, c] else [c]) src)"

fun unescape :: "string \<Rightarrow> string" where
  "unescape [] = []"
| "unescape [c] = [c]"
| "unescape (c # d # cs) = (if c = CHR 0x5C then d # unescape cs else c # unescape (d # cs))"

subsection \<open>The grammar of connection strings\<close>

text \<open>
  Modelled from the spec: the reader of the descriptor is the database client library,
  which is not part of this repository. Its grammar, as the specification gives it (key =
  value pairs separated by white space) and as the library's manual details it: white
  space around \<^verbatim>\<open>=\<close> is
  allowed; a value is either a run of characters up to the next white space or a text in
  single quotes; in both, a backslash makes the next character part of the value.
  \<open>conninfo_parse\<close> returns the pairs in the order of the text, \<open>None\<close> for a text that is
  not in the grammar. The recursion of the parser is bounded by the length of the text.
\<close>

fun conninfo_quoted :: "string \<Rightarrow> string \<Rightarrow> (string \<times> string) option" where
  "conninfo_quoted acc [] = None"
| "conninfo_quoted acc [c] = (if c = CHR 0x27 then Some (acc, []) else None)"
| "conninfo_quoted acc (c # d # cs) =
     (if c = CHR 0x5C then conninfo_quoted (acc @ [d]) cs
      else if c = CHR 0x27 then Some (acc, d # cs)
      else conninfo_quoted (acc @ [c]) (d # cs))"

fun conninfo_unquoted :: "string \<Rightarrow> string \<Rightarrow> string \<times> string" where
  "conninfo_unquoted acc [] = (acc, [])"
| "conninfo_unquoted acc [c] = (if c_isspace c \<or> c = CHR 0x5C then (acc, []) else (acc @ [c], []))"
| "conninfo_unquoted acc (c # d # cs) =
     (if c_isspace c then (acc, d # cs)
      else if c = CHR 0x5C then conninfo_unquoted (acc @ [d]) cs
      else conninfo_unquoted (acc @ [c]) (d # cs))"

fun conninfo_key :: "string \<Rightarrow> string \<Rightarrow> string \<times> string" where
  "conninfo_key acc [] = (acc, [])"
| "conninfo_key acc (c # cs) =
     (if c = CHR ''='' then (acc, c # cs)
      else if c_isspace c then (acc, dropWhile c_isspace cs)
      else conninfo_key (acc @ [c]) cs)"

fun conninfo_parse_upto :: "nat \<Rightarrow> string \<Rightarrow> (string \<times> string) list option" where
  "conninfo_parse_upto n [] = Some []"
| "conninfo_parse_upto 0 (c # cs) = None"
| "conninfo_parse_upto (Suc n) (c # cs) =
     (if c_isspace c then conninfo_parse_upto n cs
      else
        (case conninfo_key [] (c # cs) of
           (key, rest) \<Rightarrow>
             (case rest of
                [] \<Rightarrow> None
              | e # rest1 \<Rightarrow>
                  if e \<noteq> CHR ''='' then None
                  else
                    (case dropWhile c_isspace rest1 of
                       [] \<Rightarrow> Some [(key, [])]
                     | q # rest3 \<Rightarrow>
                         if q = CHR 0x27 then
                           (case conninfo_quoted [] rest3 of
                              None \<Rightarrow> None
                            | Some (v, rest4) \<Rightarrow>
                                map_option ((#) (key, v)) (conninfo_parse_upto n rest4))
                         else
                           (case conninfo_unquoted [] (q # rest3) of
                              (v, rest4) \<Rightarrow>
                                map_option ((#) (key, v)) (conninfo_parse_upto n rest4))))))"

definition conninfo_parse :: "string \<Rightarrow> (string \<times> string) list option" where
  "conninfo_parse s = conninfo_parse_upto (length s) s"

text \<open>
  The characters a key is made of, and a value that can stand without quotes.
\<close>

definition key_chars :: "string \<Rightarrow> bool" where
  "key_chars k = (k \<noteq> [] \<and> (\<forall>c \<in> set k. \<not> c_isspace c \<and> c \<noteq> CHR ''=''))"

definition word_chars :: "string \<Rightarrow> bool" where
  "word_chars v = (v \<noteq> [] \<and> hd v \<noteq> CHR 0x27 \<and> (\<forall>c \<in> set v. \<not> c_isspace c \<and> c \<noteq> CHR 0x5C))"

text \<open>
  The descriptor without an address field, as the specification lays it out: port,
  database name, user, password and timeout, the three texts in single quotes. With a
  host the field \<^verbatim>\<open>hostaddr\<close> comes first.
\<close>

definition descriptor_text :: "int \<Rightarrow> string \<Rightarrow> string \<Rightarrow> string \<Rightarrow> int \<Rightarrow> string" where
  "descriptor_text port store usr pquoted timeout =
     ''port'' @ '' = '' @ dec_int port @ CHR '' '' #
     ''dbname'' @ '' = '' @ CHR 0x27 # store @ CHR 0x27 # CHR '' '' #
     ''user'' @ '' = '' @ CHR 0x27 # usr @ CHR 0x27 # CHR '' '' #
     ''password'' @ '' = '' @ CHR 0x27 # pquoted @ CHR 0x27 # CHR '' '' #
     ''connect_timeout'' @ '' = '' @ dec_int timeout"

definition descriptor_text_host ::
  "string \<Rightarrow> int \<Rightarrow> string \<Rightarrow> string \<Rightarrow> string \<Rightarrow> int \<Rightarrow> string" where
  "descriptor_text_host ip port store usr pquoted timeout =
     ''hostaddr'' @ '' = '' @ CHR 0x27 # ip @ CHR 0x27 # CHR '' '' #
     descriptor_text port store usr pquoted timeout"

subsection \<open>Numeric addresses\<close>

text \<open>
  \<^verbatim>\<open>in.s_addr = htonl(hostaddr); q = inet_ntoa(in);\<close> The four bytes of the address in
  network order are the bytes of the 32-bit value from the most significant down, on
  every host; \<^verbatim>\<open>inet_ntoa\<close> prints them in decimal with dots between. \<^verbatim>\<open>inet_ntoa\<close>
  does not return \<^verbatim>\<open>NULL\<close>; the model keeps the option so that the branch of the caller
  is there.
\<close>

definition htonl :: "32 word \<Rightarrow> nat list" where
  "htonl w =
     [unat w div 2 ^ 24, unat w div 2 ^ 16 mod 256, unat w div 2 ^ 8 mod 256, unat w mod 256]"

definition inet_ntoa :: "nat list \<Rightarrow> string option" where
  "inet_ntoa bytes =
     (case bytes of
        [a, b, c, d] \<Rightarrow> Some (dec_nat a @ ''.'' @ dec_nat b @ ''.'' @ dec_nat c @ ''.'' @ dec_nat d)
      | _ \<Rightarrow> None)"

text \<open>
  A well-formed IPv4 literal: four parts separated by dots, each one to three decimal
  digits with a value of at most 255.
\<close>

fun split_dots :: "string \<Rightarrow> string \<Rightarrow> string list" where
  "split_dots part [] = [part]"
| "split_dots part (c # cs) =
     (if c = CHR ''.'' then part # split_dots [] cs else split_dots (part @ [c]) cs)"

definition ipv4_literal :: "string \<Rightarrow> bool" where
  "ipv4_literal s =
     (let parts = split_dots [] s
      in length parts = 4 \<and>
         (\<forall>p \<in> set parts. p \<noteq> [] \<and> length p \<le> 3 \<and> (\<forall>c \<in> set p. c_isdigit c)
            \<and> digits_value 0 p \<le> 255))"

subsection \<open>\<^verbatim>\<open>get_db_connect_string\<close>\<close>

text \<open>
  What the function takes from outside: the account name from
  \<^verbatim>\<open>pbs_get_dataservice_usr\<close> and the password from \<^verbatim>\<open>get_dataservice_password\<close> (each
  either the error message it left in \<^verbatim>\<open>errmsg\<close> or the string), the answers of the two
  \<^verbatim>\<open>malloc\<close> calls, the resolver \<^verbatim>\<open>get_hostaddr\<close> (\<^verbatim>\<open>pbs_net_t\<close> is an unsigned long, 0
  for a host that does not resolve), the port of \<^verbatim>\<open>pbs_conf\<close>, the constant
  \<^verbatim>\<open>PBS_DATA_SERVICE_STORE_NAME\<close> and \<^verbatim>\<open>errno\<close>.
\<close>

record connect_env =
  pbs_get_dataservice_usr :: "string + string"
  get_dataservice_password :: "string \<Rightarrow> string + string"
  malloc_pquoted_ok :: bool
  malloc_conn_info_ok :: bool
  get_hostaddr :: "string \<Rightarrow> 64 word"
  pbs_data_service_port :: int
  PBS_DATA_SERVICE_STORE_NAME :: string
  errno :: int

definition IPV4_STR_LEN :: nat where
  "IPV4_STR_LEN = 15"

definition template1 :: string where
  "template1 =
     ''hostaddr = '%s' port = %d dbname = '%s' user = '%s' password = '%s' connect_timeout = %d''"

definition template2 :: string where
  "template2 = ''port = %d dbname = '%s' user = '%s' password = '%s' connect_timeout = %d''"

text \<open>
  \<^verbatim>\<open>sprintf\<close> into a buffer of \<open>bufsize\<close> bytes: the text and its NUL have to fit.
\<close>

definition sprintf_into :: "nat \<Rightarrow> string \<Rightarrow> fmt_arg list \<Rightarrow> db_fault + string" where
  "sprintf_into bufsize fmt args =
     (case c_format fmt args of
        None \<Rightarrow> Inl Bad_format
      | Some text \<Rightarrow> if length text + 1 \<le> bufsize then Inr text else Inl Buffer_overflow)"

text \<open>
  \<^verbatim>\<open>snprintf(errmsg, len, ...)\<close>: the content of \<^verbatim>\<open>errmsg\<close> after the call. The call
  keeps at most \<^verbatim>\<open>len - 1\<close> characters of the text; with \<^verbatim>\<open>len = 0\<close> it writes nothing
  and \<^verbatim>\<open>errmsg\<close> stays as it was. The size parameter is a \<^verbatim>\<open>size_t\<close>: a negative
  \<^verbatim>\<open>len\<close> is converted to a size beyond any text, and what the call then does depends
  on the C library; the model takes the reading in which the whole text is written.
\<close>

definition snprintf_text :: "string \<Rightarrow> int \<Rightarrow> string \<Rightarrow> string" where
  "snprintf_text errmsg len text =
     (if len = 0 then errmsg else if len < 0 then text else take (nat (len - 1)) text)"

text \<open>
  The result is the returned string (\<open>None\<close> for \<^verbatim>\<open>NULL\<close>) with the values of
  \<^verbatim>\<open>*err_code\<close> and \<^verbatim>\<open>errmsg\<close> at the return.
\<close>

definition get_db_connect_string ::
  "connect_env \<Rightarrow> string option \<Rightarrow> int \<Rightarrow> failcode \<Rightarrow> string \<Rightarrow> int
     \<Rightarrow> db_fault + (string option \<times> failcode \<times> string)" where
  "get_db_connect_string env host timeout err_code errmsg len =
     (case pbs_get_dataservice_usr env of
        Inl msg \<Rightarrow> Inr (None, PBS_DB_AUTH_FAILED, msg)
      | Inr usr \<Rightarrow>
          (case get_dataservice_password env usr of
             Inl msg \<Rightarrow> Inr (None, PBS_DB_AUTH_FAILED, msg)
           | Inr p \<Rightarrow>
               let pquoted_len = int (length p) * 2 + 1 in
               if \<not> malloc_pquoted_ok env then Inr (None, PBS_DB_NOMEM, errmsg)
               else
                 (case escape_passwd p pquoted_len of
                    Inl fault \<Rightarrow> Inl fault
                  | Inr pquoted \<Rightarrow>
                      let bufsize = max (length template1 + 1) (length template2 + 1)
                                 + (if host \<noteq> None then IPV4_STR_LEN else 0)
                                 + 5
                                 + length (PBS_DATA_SERVICE_STORE_NAME env)
                                 + length usr
                                 + length p
                                 + 10
                      in
                      if \<not> malloc_conn_info_ok env then Inr (None, PBS_DB_NOMEM, errmsg)
                      else
                        (case host of
                           None \<Rightarrow>
                             (case sprintf_into bufsize template2
                                     [Arg_d (pbs_data_service_port env),
                                      Arg_s (PBS_DATA_SERVICE_STORE_NAME env),
                                      Arg_s usr, Arg_s pquoted, Arg_d timeout] of
                                Inl fault \<Rightarrow> Inl fault
                              | Inr svr_conn_info \<Rightarrow> Inr (Some svr_conn_info, err_code, errmsg))
                         | Some h \<Rightarrow>
                             let hostaddr = get_hostaddr env h in
                             if hostaddr = 0 then
                               Inr (None, PBS_DB_CONNFAILED,
                                    snprintf_text errmsg len
                                      (''Could not resolve dataservice host '' @ h))
                             else
                               (case inet_ntoa (htonl (ucast hostaddr)) of
                                  None \<Rightarrow>
                                    Inr (None, PBS_DB_CONNFAILED,
                                         snprintf_text errmsg len
                                           (''inet_ntoa failed, errno='' @ dec_int (errno env)))
                                | Some q \<Rightarrow>
                                    let hostaddr_str = take IPV4_STR_LEN q in
                                    (case sprintf_into bufsize template1
                                            [Arg_s hostaddr_str,
                                             Arg_d (pbs_data_service_port env),
                                             Arg_s (PBS_DATA_SERVICE_STORE_NAME env),
                                             Arg_s usr, Arg_s pquoted, Arg_d timeout] of
                                       Inl fault \<Rightarrow> Inl fault
                                     | Inr svr_conn_info \<Rightarrow>
                                         Inr (Some svr_conn_info, err_code, errmsg)))))))"

subsection \<open>A sample installation\<close>

definition sample_connect_env :: "string \<Rightarrow> connect_env" where
  "sample_connect_env password =
     \<lparr>pbs_get_dataservice_usr = Inr ''pbsdata'',
      get_dataservice_password = (\<lambda>usr. Inr password),
      malloc_pquoted_ok = True,
      malloc_conn_info_ok = True,
      get_hostaddr = (\<lambda>h. if h = ''dbhost'' then 0xC0A80A05 else 0),
      pbs_data_service_port = 15007,
      PBS_DATA_SERVICE_STORE_NAME = ''pbs_datastore'',
      errno = 0\<rparr>"


text \<open>The same installation under another account name.\<close>

definition sample_connect_env_account :: "string \<Rightarrow> string \<Rightarrow> connect_env" where
  "sample_connect_env_account usr password =
     (sample_connect_env password)\<lparr>pbs_get_dataservice_usr := Inr usr\<rparr>"
section \<open>Properties of the query cursor\<close>

lemma search_loop_stop:
  assumes "db_cursor_next m w state obj = Inr (rc, w1, state1, obj1)" and "rc \<noteq> 0"
  shows "search_loop m cb w state obj totcount = Inr (totcount, w1, state1, obj1)"
  using assms by (subst search_loop.simps) simp

lemma search_loop_step:
  assumes "db_cursor_next m w state obj = Inr (0, w1, state1, obj1)"
    and "cb (ext w1) obj1 = (refreshed, e2, obj2)"
  shows "search_loop m cb w state obj totcount =
     search_loop m cb (note_call (Query_cb refreshed) (w1\<lparr>ext := e2\<rparr>)) state1 obj2
       (if refreshed \<noteq> 0 then totcount + 1 else totcount)"
  using assms by (subst search_loop.simps) simp

lemma db_cursor_next_exhausted:
  "count state \<le> row state \<Longrightarrow> db_cursor_next m w state obj = Inr (1, w, state, obj)"
  by (simp add: db_cursor_next_def)

lemma fetches_note_call [simp]:
  "fetches (note_call c w) = (if is_fetch c then Suc (fetches w) else fetches w)"
  by (simp add: fetches_def note_call_def)

lemma fetches_ext_update [simp]: "fetches (w\<lparr>ext := e\<rparr>) = fetches w"
  by (simp add: fetches_def)

lemma fetched_rows_note_call [simp]:
  "fetched_rows (note_call c w) = fetched_rows w @ fetched_row c"
  by (simp add: fetched_rows_def note_call_def)

lemma fetched_rows_ext_update [simp]: "fetched_rows (w\<lparr>ext := e\<rparr>) = fetched_rows w"
  by (simp add: fetched_rows_def)

lemma callbacks_note_call [simp]:
  "callbacks (note_call c w) = (if is_callback c then Suc (callbacks w) else callbacks w)"
  by (simp add: callbacks_def note_call_def)

lemma callbacks_ext_update [simp]: "callbacks (w\<lparr>ext := e\<rparr>) = callbacks w"
  by (simp add: callbacks_def)

lemma accepted_note_call [simp]:
  "accepted (note_call c w) = (if is_accepted c then Suc (accepted w) else accepted w)"
  by (simp add: accepted_def note_call_def)

lemma accepted_ext_update [simp]: "accepted (w\<lparr>ext := e\<rparr>) = accepted w"
  by (simp add: accepted_def)

lemma calls_note_call [simp]: "calls (note_call c w) = calls w @ [c]"
  by (simp add: note_call_def)

lemma ext_note_call [simp]: "ext (note_call c w) = ext w"
  by (simp add: note_call_def)

lemma search_loop_total_mono:
  "search_loop m cb w state obj totcount = Inr (t', w', state', obj') \<Longrightarrow> totcount \<le> t'"
proof (induction m cb w state obj totcount rule: search_loop.induct)
  case (1 m cb w state obj totcount)
  show ?case
  proof (cases "db_cursor_next m w state obj")
    case (Inl f)
    with "1.prems" show ?thesis by (subst (asm) search_loop.simps) simp
  next
    case (Inr r)
    obtain rc w1 state1 obj1 where r: "r = (rc, w1, state1, obj1)" by (cases r) auto
    show ?thesis
    proof (cases "rc = 0")
      case False
      with Inr r "1.prems" show ?thesis by (simp add: search_loop_stop)
    next
      case True
      obtain refreshed e2 obj2 where c: "cb (ext w1) obj1 = (refreshed, e2, obj2)"
        by (cases "cb (ext w1) obj1") auto
      from Inr r True have n: "db_cursor_next m w state obj = Inr (0, w1, state1, obj1)" by simp
      from "1.prems" have "search_loop m cb (note_call (Query_cb refreshed) (w1\<lparr>ext := e2\<rparr>)) state1 obj2
       (if refreshed \<noteq> 0 then totcount + 1 else totcount) = Inr (t', w', state', obj')"
        by (simp add: search_loop_step [where cb = cb, OF n c])
      from "1.IH" [OF Inr r [symmetric] refl refl True c [symmetric] refl this]
      show ?thesis by (simp split: if_splits)
    qed
  qed
qed

text \<open>
  The total the loop returns is the total it started with plus the number of rows the
  callback accepted during the loop, however the loop ended.
\<close>

lemma search_loop_total_accepted:
  "search_loop m cb w state obj totcount = Inr (t', w', state', obj') \<Longrightarrow>
     t' = totcount + int (accepted w') - int (accepted w) \<and> accepted w \<le> accepted w'"
proof (induction m cb w state obj totcount rule: search_loop.induct)
  case (1 m cb w state obj totcount)
  show ?case
  proof (cases "db_cursor_next m w state obj")
    case (Inl f)
    with "1.prems" show ?thesis by (subst (asm) search_loop.simps) simp
  next
    case (Inr r)
    obtain rc w1 state1 obj1 where r: "r = (rc, w1, state1, obj1)" by (cases r) auto
    from Inr r have a1: "accepted w1 = accepted w"
      by (auto simp: db_cursor_next_def split: if_splits option.splits prod.splits)
    show ?thesis
    proof (cases "rc = 0")
      case False
      with Inr r "1.prems" a1 show ?thesis by (simp add: search_loop_stop)
    next
      case True
      obtain refreshed e2 obj2 where c: "cb (ext w1) obj1 = (refreshed, e2, obj2)"
        by (cases "cb (ext w1) obj1") auto
      from Inr r True have n: "db_cursor_next m w state obj = Inr (0, w1, state1, obj1)" by simp
      from "1.prems" have "search_loop m cb (note_call (Query_cb refreshed) (w1\<lparr>ext := e2\<rparr>)) state1 obj2
       (if refreshed \<noteq> 0 then totcount + 1 else totcount) = Inr (t', w', state', obj')"
        by (simp add: search_loop_step [where cb = cb, OF n c])
      from "1.IH" [OF Inr r [symmetric] refl refl True c [symmetric] refl this] a1
      show ?thesis by (simp split: if_splits)
    qed
  qed
qed

text \<open>
  The loop on a cursor whose rows from \<open>L\<close> up to but not including \<open>K\<close> are all fetched
  with return code 0: started on a row between \<open>L\<close> and \<open>K\<close>, it reaches row \<open>K\<close> after
  one fetch and one callback for each of the rows from \<open>row\<close> to \<open>K - 1\<close>, in this order.
\<close>

lemma search_loop_run:
  fixes m :: "('w, 'p, 'q) db_modules" and cb :: "('w, 'p) query_cb_t"
  assumes fetch_ok: "\<And>k nxt e s ob. pbs_db_next_obj (db_fn_arr m k) = Some nxt \<Longrightarrow>
             pbs_db_obj_type ob = k \<Longrightarrow> L \<le> row s \<Longrightarrow> row s < K \<Longrightarrow>
             fst (nxt e s ob) = 0 \<and> pbs_db_obj_type (snd (snd (nxt e s ob))) = k"
    and cb_kind: "\<And>e ob. pbs_db_obj_type (snd (snd (cb e ob))) = pbs_db_obj_type ob"
  shows "n = nat (K - row state) \<Longrightarrow> L \<le> row state \<Longrightarrow> row state \<le> K \<Longrightarrow>
     K \<le> count state \<Longrightarrow>
     pbs_db_next_obj (db_fn_arr m (pbs_db_obj_type obj)) \<noteq> None \<Longrightarrow>
     \<exists>t' w' obj' cs. search_loop m cb w state obj t = search_loop m cb w' (state\<lparr>row := K\<rparr>) obj' t'
        \<and> calls w' = calls w @ cs
        \<and> fetches w' = fetches w + n
        \<and> fetched_rows w' = fetched_rows w @ [row state..K - 1]
        \<and> callbacks w' = callbacks w + n
        \<and> t' = t + int (accepted w') - int (accepted w)
        \<and> accepted w \<le> accepted w' \<and> accepted w' \<le> accepted w + n
        \<and> ((\<forall>e ob. fst (cb e ob) \<noteq> 0) \<longrightarrow> accepted w' = accepted w + n)
        \<and> pbs_db_obj_type obj' = pbs_db_obj_type obj"
proof (induction n arbitrary: w state obj t)
  case 0
  then have "state\<lparr>row := K\<rparr> = state" by simp
  then have "search_loop m cb w state obj t = search_loop m cb w (state\<lparr>row := K\<rparr>) obj t"
    by simp
  moreover have "[row state..K - 1] = []" using 0 by simp
  ultimately show ?case by fastforce
next
  case (Suc n)
  then have lt: "row state < K" and ltc: "row state < count state" and ge: "L \<le> row state"
    by simp_all
  from Suc.prems obtain nxt where nxt: "pbs_db_next_obj (db_fn_arr m (pbs_db_obj_type obj)) = Some nxt"
    by auto
  obtain r e1 o1 where f: "nxt (ext w) state obj = (r, e1, o1)"
    by (cases "nxt (ext w) state obj") auto
  from fetch_ok [OF nxt refl ge lt, of "ext w"] f
  have r: "r = 0" and k1: "pbs_db_obj_type o1 = pbs_db_obj_type obj" by simp_all
  let ?w1 = "note_call (Next_obj (pbs_db_obj_type obj) (row state)) (w\<lparr>ext := e1\<rparr>)"
  let ?s1 = "state\<lparr>row := row state + 1\<rparr>"
  from ltc nxt f r have step: "db_cursor_next m w state obj = Inr (0, ?w1, ?s1, o1)"
    by (simp add: db_cursor_next_def)
  obtain rf e2 o2 where c: "cb (ext ?w1) o1 = (rf, e2, o2)"
    by (cases "cb (ext ?w1) o1") auto
  from cb_kind [of "ext ?w1" o1] c k1 have k2: "pbs_db_obj_type o2 = pbs_db_obj_type obj"
    by simp
  let ?w2 = "note_call (Query_cb rf) (?w1\<lparr>ext := e2\<rparr>)"
  let ?t2 = "if rf \<noteq> 0 then t + 1 else t"
  have unfold: "search_loop m cb w state obj t = search_loop m cb ?w2 ?s1 o2 ?t2"
    by (rule search_loop_step [where cb = cb, OF step c])
  have "n = nat (K - row ?s1)" "L \<le> row ?s1" "row ?s1 \<le> K" "K \<le> count ?s1"
    using Suc.prems lt by simp_all
  moreover have "pbs_db_next_obj (db_fn_arr m (pbs_db_obj_type o2)) \<noteq> None"
    using k2 nxt by simp
  ultimately obtain t' w' obj' cs where ih:
    "search_loop m cb ?w2 ?s1 o2 ?t2 = search_loop m cb w' (?s1\<lparr>row := K\<rparr>) obj' t'"
    "calls w' = calls ?w2 @ cs"
    "fetches w' = fetches ?w2 + n"
    "fetched_rows w' = fetched_rows ?w2 @ [row ?s1..K - 1]"
    "callbacks w' = callbacks ?w2 + n"
    "t' = ?t2 + int (accepted w') - int (accepted ?w2)"
    "accepted ?w2 \<le> accepted w'" "accepted w' \<le> accepted ?w2 + n"
    "(\<forall>e ob. fst (cb e ob) \<noteq> 0) \<longrightarrow> accepted w' = accepted ?w2 + n"
    "pbs_db_obj_type obj' = pbs_db_obj_type o2"
    using Suc.IH [of ?s1 o2 ?w2 ?t2] by blast
  have rows: "[row state..K - 1] = row state # [row state + 1..K - 1]"
    using lt by (simp add: upto_rec1)
  have s: "?s1\<lparr>row := K\<rparr> = state\<lparr>row := K\<rparr>" by simp
  have rf: "(\<forall>e ob. fst (cb e ob) \<noteq> 0) \<longrightarrow> rf \<noteq> 0"
  proof
    assume "\<forall>e ob. fst (cb e ob) \<noteq> 0"
    then have "fst (cb (ext ?w1) o1) \<noteq> 0" by blast
    with c show "rf \<noteq> 0" by simp
  qed
  have 1: "search_loop m cb w state obj t = search_loop m cb w' (state\<lparr>row := K\<rparr>) obj' t'"
    using unfold ih(1) s by simp
  have 2: "calls w' = calls w @ ([Next_obj (pbs_db_obj_type obj) (row state), Query_cb rf] @ cs)"
    using ih(2) by simp
  have 3: "fetches w' = fetches w + Suc n" using ih(3) by simp
  have 4: "fetched_rows w' = fetched_rows w @ [row state..K - 1]"
    using ih(4) rows by simp
  have 5: "callbacks w' = callbacks w + Suc n" using ih(5) by simp
  have 6: "t' = t + int (accepted w') - int (accepted w)" using ih(6) by (simp split: if_splits)
  have 7: "accepted w \<le> accepted w'" "accepted w' \<le> accepted w + Suc n"
    using ih(7,8) by (simp_all split: if_splits)
  have 8: "(\<forall>e ob. fst (cb e ob) \<noteq> 0) \<longrightarrow> accepted w' = accepted w + Suc n"
    using ih(9) rf by simp
  have 9: "pbs_db_obj_type obj' = pbs_db_obj_type obj" using ih(10) k2 by simp
  from 1 2 3 4 5 6 7 8 9 show ?case by blast
qed

lemma search_loop_drain:
  fixes m :: "('w, 'p, 'q) db_modules" and cb :: "('w, 'p) query_cb_t"
  assumes fetch_ok: "\<And>k nxt e s ob. pbs_db_next_obj (db_fn_arr m k) = Some nxt \<Longrightarrow>
             pbs_db_obj_type ob = k \<Longrightarrow>
             fst (nxt e s ob) = 0 \<and> pbs_db_obj_type (snd (snd (nxt e s ob))) = k"
    and cb_kind: "\<And>e ob. pbs_db_obj_type (snd (snd (cb e ob))) = pbs_db_obj_type ob"
    and le: "row state \<le> count state"
    and nxt: "pbs_db_next_obj (db_fn_arr m (pbs_db_obj_type obj)) \<noteq> None"
  shows "\<exists>t' w' obj'. search_loop m cb w state obj t = Inr (t', w', state\<lparr>row := count state\<rparr>, obj')
        \<and> fetches w' = fetches w + nat (count state - row state)
        \<and> fetched_rows w' = fetched_rows w @ [row state..count state - 1]
        \<and> callbacks w' = callbacks w + nat (count state - row state)
        \<and> t' = t + int (accepted w') - int (accepted w)"
proof -
  have "\<exists>t' w' obj' cs. search_loop m cb w state obj t
          = search_loop m cb w' (state\<lparr>row := count state\<rparr>) obj' t'
        \<and> calls w' = calls w @ cs
        \<and> fetches w' = fetches w + nat (count state - row state)
        \<and> fetched_rows w' = fetched_rows w @ [row state..count state - 1]
        \<and> callbacks w' = callbacks w + nat (count state - row state)
        \<and> t' = t + int (accepted w') - int (accepted w)
        \<and> accepted w \<le> accepted w' \<and> accepted w' \<le> accepted w + nat (count state - row state)
        \<and> ((\<forall>e ob. fst (cb e ob) \<noteq> 0) \<longrightarrow>
               accepted w' = accepted w + nat (count state - row state))
        \<and> pbs_db_obj_type obj' = pbs_db_obj_type obj"
  proof (rule search_loop_run [where n = "nat (count state - row state)" and L = "row state"])
    fix k nxt e s and ob :: "'p pbs_db_obj_info"
    assume "pbs_db_next_obj (db_fn_arr m k) = Some nxt" "pbs_db_obj_type ob = k"
    then show "fst (nxt e s ob) = 0 \<and> pbs_db_obj_type (snd (snd (nxt e s ob))) = k"
      by (rule fetch_ok)
  next
    fix e and ob :: "'p pbs_db_obj_info"
    show "pbs_db_obj_type (snd (snd (cb e ob))) = pbs_db_obj_type ob" by (rule cb_kind)
  qed (use le nxt in simp_all)
  then obtain t' w' obj' where
    run: "search_loop m cb w state obj t = search_loop m cb w' (state\<lparr>row := count state\<rparr>) obj' t'"
    and obs: "fetches w' = fetches w + nat (count state - row state)"
      "fetched_rows w' = fetched_rows w @ [row state..count state - 1]"
      "callbacks w' = callbacks w + nat (count state - row state)"
      "t' = t + int (accepted w') - int (accepted w)"
    by blast
  have "db_cursor_next m w' (state\<lparr>row := count state\<rparr>) obj'
      = Inr (1, w', state\<lparr>row := count state\<rparr>, obj')"
    by (simp add: db_cursor_next_exhausted)
  from search_loop_stop [OF this, of cb t'] run
  have "search_loop m cb w state obj t = Inr (t', w', state\<lparr>row := count state\<rparr>, obj')" by simp
  with obs show ?thesis by blast
qed

text \<open>
  When the fetch of row \<open>K\<close> returns \<open>-1\<close> after the rows below \<open>K\<close> were fetched with
  return code 0, the loop ends at that fetch.
\<close>

lemma search_loop_fetch_error:
  fixes m :: "('w, 'p, 'q) db_modules" and cb :: "('w, 'p) query_cb_t"
  assumes fetch_ok: "\<And>k nxt e s ob. pbs_db_next_obj (db_fn_arr m k) = Some nxt \<Longrightarrow>
             pbs_db_obj_type ob = k \<Longrightarrow> row state \<le> row s \<Longrightarrow> row s < K \<Longrightarrow>
             fst (nxt e s ob) = 0 \<and> pbs_db_obj_type (snd (snd (nxt e s ob))) = k"
    and fetch_fail: "\<And>k nxt e s ob. pbs_db_next_obj (db_fn_arr m k) = Some nxt \<Longrightarrow>
             pbs_db_obj_type ob = k \<Longrightarrow> row s = K \<Longrightarrow> fst (nxt e s ob) = - 1"
    and cb_kind: "\<And>e ob. pbs_db_obj_type (snd (snd (cb e ob))) = pbs_db_obj_type ob"
    and le: "row state \<le> K" and lt: "K < count state"
    and nxt: "pbs_db_next_obj (db_fn_arr m (pbs_db_obj_type obj)) \<noteq> None"
  shows "\<exists>t' w' obj' cs. search_loop m cb w state obj t = Inr (t', w', state\<lparr>row := K + 1\<rparr>, obj')
        \<and> calls w' = calls w @ cs @ [Next_obj (pbs_db_obj_type obj) K]
        \<and> fetches w' = fetches w + nat (K - row state) + 1
        \<and> fetched_rows w' = fetched_rows w @ [row state..K]
        \<and> callbacks w' = callbacks w + nat (K - row state)
        \<and> t' = t + int (accepted w') - int (accepted w)
        \<and> accepted w \<le> accepted w' \<and> accepted w' \<le> accepted w + nat (K - row state)
        \<and> ((\<forall>e ob. fst (cb e ob) \<noteq> 0) \<longrightarrow> accepted w' = accepted w + nat (K - row state))"
proof -
  from lt have lec: "K \<le> count state" by simp
  have "\<exists>t' w' obj' cs. search_loop m cb w state obj t
          = search_loop m cb w' (state\<lparr>row := K\<rparr>) obj' t'
        \<and> calls w' = calls w @ cs
        \<and> fetches w' = fetches w + nat (K - row state)
        \<and> fetched_rows w' = fetched_rows w @ [row state..K - 1]
        \<and> callbacks w' = callbacks w + nat (K - row state)
        \<and> t' = t + int (accepted w') - int (accepted w)
        \<and> accepted w \<le> accepted w' \<and> accepted w' \<le> accepted w + nat (K - row state)
        \<and> ((\<forall>e ob. fst (cb e ob) \<noteq> 0) \<longrightarrow> accepted w' = accepted w + nat (K - row state))
        \<and> pbs_db_obj_type obj' = pbs_db_obj_type obj"
  proof (rule search_loop_run [where n = "nat (K - row state)" and L = "row state"])
    fix k nxt e and s :: "('w, 'p) db_query_state" and ob :: "'p pbs_db_obj_info"
    assume "pbs_db_next_obj (db_fn_arr m k) = Some nxt" "pbs_db_obj_type ob = k"
      "row state \<le> row s" "row s < K"
    then show "fst (nxt e s ob) = 0 \<and> pbs_db_obj_type (snd (snd (nxt e s ob))) = k"
      by (rule fetch_ok)
  next
    fix e and ob :: "'p pbs_db_obj_info"
    show "pbs_db_obj_type (snd (snd (cb e ob))) = pbs_db_obj_type ob" by (rule cb_kind)
  qed (use le lec nxt in simp_all)
  then obtain t' w' obj' cs where
    run: "search_loop m cb w state obj t = search_loop m cb w' (state\<lparr>row := K\<rparr>) obj' t'"
    and obs: "calls w' = calls w @ cs"
      "fetches w' = fetches w + nat (K - row state)"
      "fetched_rows w' = fetched_rows w @ [row state..K - 1]"
      "callbacks w' = callbacks w + nat (K - row state)"
      "t' = t + int (accepted w') - int (accepted w)"
      "accepted w \<le> accepted w'" "accepted w' \<le> accepted w + nat (K - row state)"
      "(\<forall>e ob. fst (cb e ob) \<noteq> 0) \<longrightarrow> accepted w' = accepted w + nat (K - row state)"
    and kind: "pbs_db_obj_type obj' = pbs_db_obj_type obj"
    by blast
  from nxt kind obtain f where f: "pbs_db_next_obj (db_fn_arr m (pbs_db_obj_type obj')) = Some f"
    by auto
  let ?sK = "state\<lparr>row := K\<rparr>"
  obtain r e1 o1 where c: "f (ext w') ?sK obj' = (r, e1, o1)"
    by (cases "f (ext w') ?sK obj'") auto
  from fetch_fail [OF f refl, of ?sK "ext w'"] c have r: "r = - 1" by simp
  let ?w1 = "note_call (Next_obj (pbs_db_obj_type obj) K) (w'\<lparr>ext := e1\<rparr>)"
  from lt f c r kind
  have "db_cursor_next m w' ?sK obj' = Inr (- 1, ?w1, state\<lparr>row := K + 1\<rparr>, o1)"
    by (simp add: db_cursor_next_def)
  from search_loop_stop [OF this, of cb t'] run
  have 1: "search_loop m cb w state obj t = Inr (t', ?w1, state\<lparr>row := K + 1\<rparr>, o1)" by simp
  have rows: "[row state..K] = [row state..K - 1] @ [K]"
    using le by (simp add: upto_rec2)
  have 2: "calls ?w1 = calls w @ cs @ [Next_obj (pbs_db_obj_type obj) K]" using obs(1) by simp
  have 3: "fetches ?w1 = fetches w + nat (K - row state) + 1" using obs(2) by simp
  have 4: "fetched_rows ?w1 = fetched_rows w @ [row state..K]" using obs(3) rows by simp
  have 5: "callbacks ?w1 = callbacks w + nat (K - row state)" using obs(4) by simp
  have 6: "t' = t + int (accepted ?w1) - int (accepted w)" using obs(5) by simp
  have 7: "accepted w \<le> accepted ?w1" "accepted ?w1 \<le> accepted w + nat (K - row state)"
    "(\<forall>e ob. fst (cb e ob) \<noteq> 0) \<longrightarrow> accepted ?w1 = accepted w + nat (K - row state)"
    using obs(6,7,8) by simp_all
  from 1 2 3 4 5 6 7 show ?thesis by blast
qed

text \<open>\<^verbatim>\<open>pbs_db_search\<close> once the find has not failed: the loop, then the destruction.\<close>

lemma pbs_db_search_found:
  assumes "pbs_db_find_obj (db_fn_arr m (pbs_db_obj_type obj)) = Some find_obj"
    and "find_obj (ext w) \<lparr>res = None, row = - 1, count = - 1, query_cb = cb\<rparr> obj opts
           = (ret, e1, st1)"
    and "ret \<noteq> - 1"
    and "search_loop m cb
           (note_call (Find_obj (pbs_db_obj_type obj)) (note_call Malloc_state (w\<lparr>ext := e1\<rparr>)))
           st1 obj 0 = Inr (t, w2, st2, obj2)"
  shows "pbs_db_search m True w obj opts cb = Inr (t, db_destroy_state w2 (Some st2))"
  using assms by (simp add: pbs_db_search_def db_initialize_state_def Let_def)

lemma observe_destroy_state [simp]:
  "fetches (db_destroy_state w st) = fetches w"
  "fetched_rows (db_destroy_state w st) = fetched_rows w"
  "callbacks (db_destroy_state w st) = callbacks w"
  "accepted (db_destroy_state w st) = accepted w"
  by (simp_all add: db_destroy_state_def fetches_def fetched_rows_def callbacks_def accepted_def
      note_call_def split: option.splits)

lemmas sample_defs = sample_cb_def sample_find_three_def sample_find_error_def
  sample_find_empty_def sample_next_ok_def sample_next_fail_def sample_modules_def
  sample_job_def sample_world_def sample_cursor_def

text \<open>
  Claim C1. \<^verbatim>\<open>db_initialize_state\<close> makes the cursor with \<open>row = -1\<close>; the find of a
  search that has rows records their number in \<open>count\<close> and positions the cursor on the
  first row, \<open>row = 0\<close> (the first call of \<^verbatim>\<open>db_cursor_next\<close> gets the first row). Take
  such a find, next functions that return 0 on every row, and a callback, none of which
  changes the type tag of the object. Then
  \<^item> the whole search makes exactly \<open>count\<close> per-row fetches, of the rows
    \<open>0, ..., count - 1\<close> in this order;
  \<^item> the loop that calls \<^verbatim>\<open>db_cursor_next\<close> on the positioned cursor until it stops
    returning 0 makes exactly \<open>count\<close> fetches, leaves the cursor on \<open>row = count\<close>, and
    the next call of \<^verbatim>\<open>db_cursor_next\<close> returns 1 and changes nothing;
  \<^item> every call of \<^verbatim>\<open>db_cursor_next\<close> on a cursor with \<open>count \<le> row\<close> returns 1 and
    leaves the world, the cursor and the object as they were, so no fetch is made.
\<close>
theorem cursor_drain_fetch_count:
  fixes m :: "('w, 'p, 'q) db_modules" and cb :: "('w, 'p) query_cb_t"
  assumes "pbs_db_find_obj (db_fn_arr m (pbs_db_obj_type obj)) = Some find_obj"
    and "find_obj (ext w) \<lparr>res = None, row = - 1, count = - 1, query_cb = cb\<rparr> obj opts
           = (ret, e1, state)"
    and "ret \<noteq> - 1" and "row state = 0" and "0 \<le> count state"
    and "pbs_db_next_obj (db_fn_arr m (pbs_db_obj_type obj)) \<noteq> None"
    and "\<forall>k nxt e s ob. pbs_db_next_obj (db_fn_arr m k) = Some nxt \<and> pbs_db_obj_type ob = k \<longrightarrow>
             fst (nxt e s ob) = 0 \<and> pbs_db_obj_type (snd (snd (nxt e s ob))) = k"
    and "\<forall>e ob. pbs_db_obj_type (snd (snd (cb e ob))) = pbs_db_obj_type ob"
  shows "(\<exists>n w'. pbs_db_search m True w obj opts cb = Inr (n, w') \<and>
            fetches w' = fetches w + nat (count state) \<and>
            fetched_rows w' = fetched_rows w @ [0..count state - 1]) \<and>
     (\<forall>w1. drain_fetches m cb w1 state obj = Some (nat (count state)) \<and>
        (\<exists>t' w' obj'. search_loop m cb w1 state obj 0
              = Inr (t', w', state\<lparr>row := count state\<rparr>, obj') \<and>
           fetches w' = fetches w1 + nat (count state) \<and>
           fetched_rows w' = fetched_rows w1 @ [0..count state - 1] \<and>
           db_cursor_next m w' (state\<lparr>row := count state\<rparr>) obj'
              = Inr (1, w', state\<lparr>row := count state\<rparr>, obj'))) \<and>
     (\<forall>w2 s2 ob2. count s2 \<le> row s2 \<longrightarrow>
        db_cursor_next m (w2 :: 'w world) (s2 :: ('w, 'p) db_query_state) ob2 = Inr (1, w2, s2, ob2))"
proof -
  have drain: "\<exists>t' w' obj'. search_loop m cb w1 state obj 0
         = Inr (t', w', state\<lparr>row := count state\<rparr>, obj') \<and>
        fetches w' = fetches w1 + nat (count state - row state) \<and>
        fetched_rows w' = fetched_rows w1 @ [row state..count state - 1] \<and>
        callbacks w' = callbacks w1 + nat (count state - row state) \<and>
        t' = 0 + int (accepted w') - int (accepted w1)" for w1
  proof (rule search_loop_drain)
    fix k nxt e s and ob :: "'p pbs_db_obj_info"
    assume "pbs_db_next_obj (db_fn_arr m k) = Some nxt" "pbs_db_obj_type ob = k"
    with assms(7) show "fst (nxt e s ob) = 0 \<and> pbs_db_obj_type (snd (snd (nxt e s ob))) = k"
      by blast
  next
    fix e and ob :: "'p pbs_db_obj_info"
    from assms(8) show "pbs_db_obj_type (snd (snd (cb e ob))) = pbs_db_obj_type ob" by blast
  qed (use assms(4,5,6) in simp_all)
  have loop: "\<exists>t' w' obj'. search_loop m cb w1 state obj 0
         = Inr (t', w', state\<lparr>row := count state\<rparr>, obj') \<and>
        fetches w' = fetches w1 + nat (count state) \<and>
        fetched_rows w' = fetched_rows w1 @ [0..count state - 1]" for w1
    using drain [of w1] assms(4) by auto
  let ?w1 = "note_call (Find_obj (pbs_db_obj_type obj)) (note_call Malloc_state (w\<lparr>ext := e1\<rparr>))"
  from loop [of ?w1] obtain t' w2 obj' where
    l: "search_loop m cb ?w1 state obj 0 = Inr (t', w2, state\<lparr>row := count state\<rparr>, obj')"
    and f: "fetches w2 = fetches ?w1 + nat (count state)"
      "fetched_rows w2 = fetched_rows ?w1 @ [0..count state - 1]"
    by blast
  from pbs_db_search_found [OF assms(1,2,3) l] f
  have whole: "\<exists>n w'. pbs_db_search m True w obj opts cb = Inr (n, w') \<and>
            fetches w' = fetches w + nat (count state) \<and>
            fetched_rows w' = fetched_rows w @ [0..count state - 1]"
    by simp
  have positioned: "drain_fetches m cb w1 state obj = Some (nat (count state)) \<and>
        (\<exists>t' w' obj'. search_loop m cb w1 state obj 0
              = Inr (t', w', state\<lparr>row := count state\<rparr>, obj') \<and>
           fetches w' = fetches w1 + nat (count state) \<and>
           fetched_rows w' = fetched_rows w1 @ [0..count state - 1] \<and>
           db_cursor_next m w' (state\<lparr>row := count state\<rparr>) obj'
              = Inr (1, w', state\<lparr>row := count state\<rparr>, obj'))" for w1
  proof -
    from loop [of w1] obtain t' w' obj' where
      l: "search_loop m cb w1 state obj 0 = Inr (t', w', state\<lparr>row := count state\<rparr>, obj')"
      and f: "fetches w' = fetches w1 + nat (count state)"
        "fetched_rows w' = fetched_rows w1 @ [0..count state - 1]"
      by blast
    from l f(1) have "drain_fetches m cb w1 state obj = Some (nat (count state))"
      by (simp add: drain_fetches_def)
    moreover have "db_cursor_next m w' (state\<lparr>row := count state\<rparr>) obj'
              = Inr (1, w', state\<lparr>row := count state\<rparr>, obj')"
      by (simp add: db_cursor_next_exhausted)
    ultimately show ?thesis using l f by blast
  qed
  from whole positioned show ?thesis by (simp add: db_cursor_next_exhausted)
qed

text \<open>
  Claim C1 on a find that positions the cursor on row 0 of three rows: three fetches, of
  the rows 0, 1 and 2.
\<close>

theorem cursor_drain_fetch_count_witness:
  "row (sample_cursor 0 3) = 0 \<and> 0 \<le> count (sample_cursor 0 3) \<and>
   drain_fetches (sample_modules sample_find_three sample_next_ok) sample_cb sample_world
     (sample_cursor 0 3) sample_job = Some 3 \<and>
   (\<exists>n w'. pbs_db_search (sample_modules sample_find_three sample_next_ok) True sample_world
        sample_job () sample_cb = Inr (n, w') \<and> fetches w' = 3 \<and> fetched_rows w' = [0, 1, 2])"
proof -
  let ?m = "sample_modules sample_find_three sample_next_ok"
  have f: "pbs_db_find_obj (db_fn_arr ?m (pbs_db_obj_type sample_job)) = Some sample_find_three"
    by (simp add: sample_defs)
  have r: "sample_find_three (ext sample_world)
      \<lparr>res = None, row = - 1, count = - 1, query_cb = sample_cb\<rparr> sample_job ()
        = (0, (), sample_cursor 0 3)"
    by (simp add: sample_defs)
  have 1: "pbs_db_next_obj (db_fn_arr ?m (pbs_db_obj_type sample_job)) \<noteq> None"
    by (simp add: sample_defs)
  have nx: "pbs_db_next_obj (db_fn_arr ?m k) = Some nxt \<Longrightarrow> nxt = sample_next_ok" for k nxt
    by (cases k) (auto simp: sample_modules_def)
  have 2: "\<forall>k nxt e s ob. pbs_db_next_obj (db_fn_arr ?m k) = Some nxt \<and> pbs_db_obj_type ob = k \<longrightarrow>
             fst (nxt e s ob) = 0 \<and> pbs_db_obj_type (snd (snd (nxt e s ob))) = k"
  proof (intro allI impI)
    fix k nxt e s and ob :: "unit pbs_db_obj_info"
    assume "pbs_db_next_obj (db_fn_arr ?m k) = Some nxt \<and> pbs_db_obj_type ob = k"
    then have "nxt = sample_next_ok" "pbs_db_obj_type ob = k" using nx by auto
    then show "fst (nxt e s ob) = 0 \<and> pbs_db_obj_type (snd (snd (nxt e s ob))) = k"
      by (simp add: sample_next_ok_def)
  qed
  have 3: "\<forall>e ob. pbs_db_obj_type (snd (snd (sample_cb e ob))) = pbs_db_obj_type ob"
    by (simp add: sample_defs)
  have 4: "row (sample_cursor 0 3) = 0" "0 \<le> count (sample_cursor 0 3)"
    by (simp_all add: sample_defs)
  have rows: "[0..2::int] = [0, 1, 2]" by (simp add: upto_rec1)
  have obs: "fetches sample_world = 0" "fetched_rows sample_world = []"
    by (simp_all add: sample_world_def fetches_def fetched_rows_def)
  from cursor_drain_fetch_count [where m = ?m and cb = sample_cb and w = sample_world,
      OF f r _ 4 1 2 3]
  have "(\<exists>n w'. pbs_db_search ?m True sample_world sample_job () sample_cb = Inr (n, w') \<and>
            fetches w' = fetches sample_world + nat (count (sample_cursor 0 3)) \<and>
            fetched_rows w' = fetched_rows sample_world @ [0..count (sample_cursor 0 3) - 1])"
    and "drain_fetches ?m sample_cb sample_world (sample_cursor 0 3) sample_job
           = Some (nat (count (sample_cursor 0 3)))"
    by simp_all
  moreover have "count (sample_cursor 0 3) = 3" by (simp add: sample_cursor_def)
  ultimately show ?thesis using 4 obs rows by simp
qed

text \<open>
  Claim C2, as amended. When \<open>row < count\<close> and \<^verbatim>\<open>db_cursor_next\<close> returns, the cursor
  it leaves is the old one with \<open>row\<close> advanced by one, whatever the per-row fetch
  returned; a return code of \<open>-1\<close> advances the row like any other.
\<close>
theorem cursor_next_advances_row:
  assumes "row state < count state"
    and "db_cursor_next m w state obj = Inr (rc, w', state', obj')"
  shows "state' = state\<lparr>row := row state + 1\<rparr>"
  using assms by (auto simp: db_cursor_next_def split: option.splits prod.splits)

text \<open>
  Claim C2 as stated fails: with a fetch that returns \<open>-1\<close> on row 1, the call returns
  \<open>-1\<close> and leaves the cursor on row 2.
\<close>

theorem cursor_next_error_keeps_row_counterexample:
  "db_cursor_next (sample_modules sample_find_three sample_next_fail) sample_world
     (sample_cursor 1 3) sample_job
   = Inr (- 1, \<lparr>ext = (), calls = [Next_obj PBS_DB_JOB 1]\<rparr>, sample_cursor 2 3, sample_job)
   \<and> row (sample_cursor 2 3) \<noteq> row (sample_cursor 1 3)"
  by (simp add: db_cursor_next_def sample_defs note_call_def)

text \<open>The amended claim C2 at that failing fetch.\<close>

theorem cursor_next_advances_row_witness:
  "row (sample_cursor 1 3) < count (sample_cursor 1 3) \<and>
   sample_cursor 2 3 = (sample_cursor 1 3)\<lparr>row := row (sample_cursor 1 3) + 1\<rparr>"
proof -
  have 1: "row (sample_cursor 1 3) < count (sample_cursor 1 3)"
    by (simp add: sample_cursor_def)
  have 2: "db_cursor_next (sample_modules sample_find_three sample_next_fail) sample_world
     (sample_cursor 1 3) sample_job
   = Inr (- 1, \<lparr>ext = (), calls = [Next_obj PBS_DB_JOB 1]\<rparr>, sample_cursor 2 3, sample_job)"
    by (simp add: db_cursor_next_def sample_defs note_call_def)
  from cursor_next_advances_row [OF 1 2] 1 show ?thesis by simp
qed

text \<open>
  Claim C10. The cursor made by \<^verbatim>\<open>db_initialize_state\<close> has \<open>row = -1\<close> and
  \<open>count = -1\<close>; \<^verbatim>\<open>db_cursor_next\<close> on it returns 1 and changes nothing: no per-row fetch
  is called.
\<close>
theorem fresh_cursor_next_no_more_rows:
  "db_initialize_state True cb = Some \<lparr>res = None, row = - 1, count = - 1, query_cb = cb\<rparr> \<and>
   db_cursor_next m w \<lparr>res = None, row = - 1, count = - 1, query_cb = cb\<rparr> obj
     = Inr (1, w, \<lparr>res = None, row = - 1, count = - 1, query_cb = cb\<rparr>, obj)"
  by (simp add: db_initialize_state_def db_cursor_next_def)

lemma calls_destroy_state:
  "calls (db_destroy_state w (Some st)) =
     calls w @ (case res st of None \<Rightarrow> [] | Some r \<Rightarrow> [PQclear r]) @ [Free_state]"
  by (simp add: db_destroy_state_def note_call_def split: option.splits)

lemma ext_destroy_state: "ext (db_destroy_state w st) = ext w"
  by (simp add: db_destroy_state_def note_call_def split: option.splits)

text \<open>
  Claim C3. Let the find function of the object's type return \<open>ret\<close> and leave the
  cursor \<open>st1\<close>.
  \<^item> If it did not fail (\<open>ret \<noteq> -1\<close>) and left no row to read (\<open>count \<le> row\<close>, as after a
    query without rows, where the cursor stays as \<^verbatim>\<open>db_initialize_state\<close> made it),
    \<^verbatim>\<open>pbs_db_search\<close> returns 0, and the calls it made are the allocation, the find, the
    \<^verbatim>\<open>PQclear\<close> of a result the find stored, and last the \<^verbatim>\<open>free\<close> of the cursor.
  \<^item> Whenever \<^verbatim>\<open>pbs_db_search\<close> returns \<open>-1\<close>, the allocation failed or the find returned
    \<open>-1\<close>; no fetch was made; and if the cursor was allocated it was destroyed as the
    last call (if it was not, nothing happened at all).
\<close>
theorem pbs_db_search_empty_or_failed:
  fixes m :: "('w, 'p, 'q) db_modules" and cb :: "('w, 'p) query_cb_t"
  assumes "pbs_db_find_obj (db_fn_arr m (pbs_db_obj_type obj)) = Some find_obj"
    and "find_obj (ext w) \<lparr>res = None, row = - 1, count = - 1, query_cb = cb\<rparr> obj opts
           = (ret, e1, st1)"
  shows "(ret \<noteq> - 1 \<and> count st1 \<le> row st1 \<longrightarrow>
            (\<exists>w'. pbs_db_search m True w obj opts cb = Inr (0, w') \<and>
               calls w' = calls w @ [Malloc_state, Find_obj (pbs_db_obj_type obj)]
                   @ (case res st1 of None \<Rightarrow> [] | Some r \<Rightarrow> [PQclear r]) @ [Free_state])) \<and>
         (\<forall>ok w'. pbs_db_search m ok w obj opts cb = Inr (- 1, w') \<longrightarrow>
            (\<not> ok \<or> ret = - 1) \<and> fetches w' = fetches w \<and>
            (if ok then calls w' = calls w @ [Malloc_state, Find_obj (pbs_db_obj_type obj)]
                   @ (case res st1 of None \<Rightarrow> [] | Some r \<Rightarrow> [PQclear r]) @ [Free_state]
             else w' = w))"
proof (intro conjI impI allI)
  let ?w1 = "note_call (Find_obj (pbs_db_obj_type obj)) (note_call Malloc_state (w\<lparr>ext := e1\<rparr>))"
  assume a: "ret \<noteq> - 1 \<and> count st1 \<le> row st1"
  then have "db_cursor_next m ?w1 st1 obj = Inr (1, ?w1, st1, obj)"
    by (simp add: db_cursor_next_exhausted)
  then have "search_loop m cb ?w1 st1 obj 0 = Inr (0, ?w1, st1, obj)"
    by (rule search_loop_stop) simp
  with a assms have "pbs_db_search m True w obj opts cb = Inr (0, db_destroy_state ?w1 (Some st1))"
    by (simp add: pbs_db_search_def db_initialize_state_def)
  moreover have "calls (db_destroy_state ?w1 (Some st1)) =
      calls w @ [Malloc_state, Find_obj (pbs_db_obj_type obj)]
                   @ (case res st1 of None \<Rightarrow> [] | Some r \<Rightarrow> [PQclear r]) @ [Free_state]"
    by (simp add: calls_destroy_state note_call_def)
  ultimately show "\<exists>w'. pbs_db_search m True w obj opts cb = Inr (0, w') \<and>
               calls w' = calls w @ [Malloc_state, Find_obj (pbs_db_obj_type obj)]
                   @ (case res st1 of None \<Rightarrow> [] | Some r \<Rightarrow> [PQclear r]) @ [Free_state]"
    by blast
next
  fix ok w'
  let ?w1 = "note_call (Find_obj (pbs_db_obj_type obj)) (note_call Malloc_state (w\<lparr>ext := e1\<rparr>))"
  assume s: "pbs_db_search m ok w obj opts cb = Inr (- 1, w')"
  have nonneg: "ret \<noteq> - 1 \<Longrightarrow> ok \<Longrightarrow> False"
  proof -
    assume r: "ret \<noteq> - 1" and ok
    with s assms obtain t w2 st2 obj2 where
      l: "search_loop m cb ?w1 st1 obj 0 = Inr (t, w2, st2, obj2)" and "t = - 1"
      by (auto simp: pbs_db_search_def db_initialize_state_def split: sum.splits)
    from search_loop_total_mono [OF l] \<open>t = - 1\<close> show False by simp
  qed
  then show "\<not> ok \<or> ret = - 1" by blast
  have w': "if ok then w' = db_destroy_state ?w1 (Some st1) else w' = w"
  proof (cases ok)
    case True
    with nonneg have "ret = - 1" by blast
    with s assms True show ?thesis
      by (simp add: pbs_db_search_def db_initialize_state_def Let_def)
  next
    case False
    with s show ?thesis
      by (simp add: pbs_db_search_def db_initialize_state_def)
  qed
  then show "fetches w' = fetches w"
    by (auto simp: fetches_def calls_destroy_state note_call_def split: option.splits if_splits)
  from w' show "if ok then calls w' = calls w @ [Malloc_state, Find_obj (pbs_db_obj_type obj)]
                   @ (case res st1 of None \<Rightarrow> [] | Some r \<Rightarrow> [PQclear r]) @ [Free_state]
             else w' = w"
    by (auto simp: calls_destroy_state note_call_def split: if_splits)
qed

text \<open>
  Claim C3 on a find over an empty result and on a find that fails.
\<close>

theorem pbs_db_search_empty_or_failed_witness:
  "(\<exists>w'. pbs_db_search (sample_modules sample_find_empty sample_next_ok) True sample_world
           sample_job () sample_cb = Inr (0, w') \<and>
         calls w' = [Malloc_state, Find_obj PBS_DB_JOB, Free_state]) \<and>
   pbs_db_search (sample_modules sample_find_error sample_next_ok) True sample_world
           sample_job () sample_cb
     = Inr (- 1, \<lparr>ext = (), calls = [Malloc_state, Find_obj PBS_DB_JOB, Free_state]\<rparr>) \<and>
   fetches \<lparr>ext = (), calls = [Malloc_state, Find_obj PBS_DB_JOB, Free_state]\<rparr> = fetches sample_world"
proof -
  let ?st0 = "\<lparr>res = None, row = - 1, count = - 1, query_cb = sample_cb\<rparr>"
  have f1: "pbs_db_find_obj (db_fn_arr (sample_modules sample_find_empty sample_next_ok)
      (pbs_db_obj_type sample_job)) = Some sample_find_empty"
    by (simp add: sample_modules_def sample_job_def)
  have r1: "sample_find_empty (ext sample_world) ?st0 sample_job () = (1, (), ?st0)"
    by (simp add: sample_find_empty_def)
  have f2: "pbs_db_find_obj (db_fn_arr (sample_modules sample_find_error sample_next_ok)
      (pbs_db_obj_type sample_job)) = Some sample_find_error"
    by (simp add: sample_modules_def sample_job_def)
  have r2: "sample_find_error (ext sample_world) ?st0 sample_job () = (- 1, (), ?st0)"
    by (simp add: sample_find_error_def)
  have s2: "pbs_db_search (sample_modules sample_find_error sample_next_ok) True sample_world
           sample_job () sample_cb
     = Inr (- 1, \<lparr>ext = (), calls = [Malloc_state, Find_obj PBS_DB_JOB, Free_state]\<rparr>)"
    by (simp add: pbs_db_search_def db_initialize_state_def db_destroy_state_def note_call_def
        sample_defs)
  from pbs_db_search_empty_or_failed [OF f1 r1]
  have "\<exists>w'. pbs_db_search (sample_modules sample_find_empty sample_next_ok) True sample_world
           sample_job () sample_cb = Inr (0, w') \<and>
         calls w' = [Malloc_state, Find_obj PBS_DB_JOB, Free_state]"
    by (simp add: sample_world_def sample_job_def)
  moreover from pbs_db_search_empty_or_failed [OF f2 r2] s2
  have "fetches \<lparr>ext = (), calls = [Malloc_state, Find_obj PBS_DB_JOB, Free_state]\<rparr>
          = fetches sample_world"
    by blast
  ultimately show ?thesis using s2 by blast
qed

text \<open>
  Claim C9. Let the find not fail and leave the cursor \<open>st1\<close>, let the fetches of the
  rows from \<open>row st1\<close> up to \<open>K - 1\<close> return 0 and the fetch of row \<open>K\<close>, a row the cursor
  has, return \<open>-1\<close>.
  Then \<^verbatim>\<open>pbs_db_search\<close> returns, and what it returns is the number of rows the callback
  accepted before that fetch: it is not \<open>-1\<close> but lies between 0 and the number
  \<open>K - row st1\<close> of rows delivered, and it is this number when the callback accepts every
  row. The rows fetched are those from \<open>row st1\<close> to \<open>K\<close>, the callback ran once for each
  of them but the last, the failed fetch is the last call before the cursor is
  destroyed, and no later row is fetched. At any point of the loop, with \<open>t\<close> rows
  accepted so far, a \<^verbatim>\<open>db_cursor_next\<close> that returns \<open>-1\<close> ends the loop with the total
  \<open>t\<close>, exactly as one that returns 1 (no more rows) does, so the caller cannot tell the
  fetch error from the end of the rows.
\<close>
theorem search_fetch_error_returns_total:
  fixes m :: "('w, 'p, 'q) db_modules" and cb :: "('w, 'p) query_cb_t"
  assumes "pbs_db_find_obj (db_fn_arr m (pbs_db_obj_type obj)) = Some find_obj"
    and "find_obj (ext w) \<lparr>res = None, row = - 1, count = - 1, query_cb = cb\<rparr> obj opts
           = (ret, e1, st1)"
    and "ret \<noteq> - 1"
    and "pbs_db_next_obj (db_fn_arr m (pbs_db_obj_type obj)) \<noteq> None"
    and "\<forall>k nxt e s ob. pbs_db_next_obj (db_fn_arr m k) = Some nxt \<and> pbs_db_obj_type ob = k \<and>
             row st1 \<le> row s \<and> row s < K \<longrightarrow>
             fst (nxt e s ob) = 0 \<and> pbs_db_obj_type (snd (snd (nxt e s ob))) = k"
    and "\<forall>k nxt e s ob. pbs_db_next_obj (db_fn_arr m k) = Some nxt \<and> pbs_db_obj_type ob = k \<and>
             row s = K \<longrightarrow> fst (nxt e s ob) = - 1"
    and "\<forall>e ob. pbs_db_obj_type (snd (snd (cb e ob))) = pbs_db_obj_type ob"
    and "row st1 \<le> K" and "K < count st1"
  shows "(\<exists>n w' cs. pbs_db_search m True w obj opts cb = Inr (n, w') \<and>
            n = int (accepted w') - int (accepted w) \<and> n \<noteq> - 1 \<and> 0 \<le> n \<and> n \<le> K - row st1 \<and>
            ((\<forall>e ob. fst (cb e ob) \<noteq> 0) \<longrightarrow> n = K - row st1) \<and>
            fetched_rows w' = fetched_rows w @ [row st1..K] \<and>
            callbacks w' = callbacks w + nat (K - row st1) \<and>
            calls w' = calls w @ [Malloc_state, Find_obj (pbs_db_obj_type obj)] @ cs
                @ [Next_obj (pbs_db_obj_type obj) K]
                @ (case res st1 of None \<Rightarrow> [] | Some r \<Rightarrow> [PQclear r]) @ [Free_state]) \<and>
         (\<forall>w0 s0 ob0 t w1 s1 ob1. db_cursor_next m w0 s0 ob0 = Inr (- 1, w1, s1, ob1) \<longrightarrow>
            search_loop m cb w0 s0 ob0 t = Inr (t, w1, s1, ob1)) \<and>
         (\<forall>w0 s0 ob0 t w1 s1 ob1. db_cursor_next m w0 s0 ob0 = Inr (1, w1, s1, ob1) \<longrightarrow>
            search_loop m cb w0 s0 ob0 t = Inr (t, w1, s1, ob1))"
proof (intro conjI impI allI)
  let ?w1 = "note_call (Find_obj (pbs_db_obj_type obj)) (note_call Malloc_state (w\<lparr>ext := e1\<rparr>))"
  let ?d = "nat (K - row st1)"
  have "\<exists>t' w' obj' cs. search_loop m cb ?w1 st1 obj 0 = Inr (t', w', st1\<lparr>row := K + 1\<rparr>, obj')
        \<and> calls w' = calls ?w1 @ cs @ [Next_obj (pbs_db_obj_type obj) K]
        \<and> fetches w' = fetches ?w1 + ?d + 1
        \<and> fetched_rows w' = fetched_rows ?w1 @ [row st1..K]
        \<and> callbacks w' = callbacks ?w1 + ?d
        \<and> t' = 0 + int (accepted w') - int (accepted ?w1)
        \<and> accepted ?w1 \<le> accepted w' \<and> accepted w' \<le> accepted ?w1 + ?d
        \<and> ((\<forall>e ob. fst (cb e ob) \<noteq> 0) \<longrightarrow> accepted w' = accepted ?w1 + ?d)"
  proof (rule search_loop_fetch_error)
    fix k nxt e and s :: "('w, 'p) db_query_state" and ob :: "'p pbs_db_obj_info"
    assume "pbs_db_next_obj (db_fn_arr m k) = Some nxt" "pbs_db_obj_type ob = k"
      "row st1 \<le> row s" "row s < K"
    with assms(5) show "fst (nxt e s ob) = 0 \<and> pbs_db_obj_type (snd (snd (nxt e s ob))) = k"
      by blast
  next
    fix k nxt e and s :: "('w, 'p) db_query_state" and ob :: "'p pbs_db_obj_info"
    assume "pbs_db_next_obj (db_fn_arr m k) = Some nxt" "pbs_db_obj_type ob = k" "row s = K"
    with assms(6) show "fst (nxt e s ob) = - 1" by blast
  next
    fix e and ob :: "'p pbs_db_obj_info"
    from assms(7) show "pbs_db_obj_type (snd (snd (cb e ob))) = pbs_db_obj_type ob" by blast
  qed (use assms(4,8,9) in simp_all)
  then obtain t' w2 obj' cs where
    l: "search_loop m cb ?w1 st1 obj 0 = Inr (t', w2, st1\<lparr>row := K + 1\<rparr>, obj')"
    and c: "calls w2 = calls ?w1 @ cs @ [Next_obj (pbs_db_obj_type obj) K]"
    and o: "fetched_rows w2 = fetched_rows ?w1 @ [row st1..K]"
      "callbacks w2 = callbacks ?w1 + ?d"
    and t: "t' = 0 + int (accepted w2) - int (accepted ?w1)"
    and a: "accepted ?w1 \<le> accepted w2" "accepted w2 \<le> accepted ?w1 + ?d"
      "(\<forall>e ob. fst (cb e ob) \<noteq> 0) \<longrightarrow> accepted w2 = accepted ?w1 + ?d"
    by blast
  let ?w3 = "db_destroy_state w2 (Some (st1\<lparr>row := K + 1\<rparr>))"
  have 1: "pbs_db_search m True w obj opts cb = Inr (t', ?w3)"
    by (rule pbs_db_search_found [OF assms(1,2,3) l])
  have aw: "accepted ?w1 = accepted w" by simp
  have 2: "t' = int (accepted ?w3) - int (accepted w)" using t aw by simp
  have 3: "0 \<le> t'" "t' \<noteq> - 1" "t' \<le> K - row st1" using t a(1,2) aw assms(8) by simp_all
  have 4: "(\<forall>e ob. fst (cb e ob) \<noteq> 0) \<longrightarrow> t' = K - row st1"
    using t a(3) aw assms(8) by auto
  have 5: "fetched_rows ?w3 = fetched_rows w @ [row st1..K]" using o(1) by simp
  have 6: "callbacks ?w3 = callbacks w + ?d" using o(2) by simp
  have 7: "calls ?w3 = calls w @ [Malloc_state, Find_obj (pbs_db_obj_type obj)] @ cs
                @ [Next_obj (pbs_db_obj_type obj) K]
                @ (case res st1 of None \<Rightarrow> [] | Some r \<Rightarrow> [PQclear r]) @ [Free_state]"
    using c by (simp add: calls_destroy_state)
  from 1 2 3 4 5 6 7
  show "\<exists>n w' cs. pbs_db_search m True w obj opts cb = Inr (n, w') \<and>
            n = int (accepted w') - int (accepted w) \<and> n \<noteq> - 1 \<and> 0 \<le> n \<and> n \<le> K - row st1 \<and>
            ((\<forall>e ob. fst (cb e ob) \<noteq> 0) \<longrightarrow> n = K - row st1) \<and>
            fetched_rows w' = fetched_rows w @ [row st1..K] \<and>
            callbacks w' = callbacks w + nat (K - row st1) \<and>
            calls w' = calls w @ [Malloc_state, Find_obj (pbs_db_obj_type obj)] @ cs
                @ [Next_obj (pbs_db_obj_type obj) K]
                @ (case res st1 of None \<Rightarrow> [] | Some r \<Rightarrow> [PQclear r]) @ [Free_state]"
    by blast
next
  fix w0 s0 ob0 t w1 s1 ob1
  assume "db_cursor_next m w0 s0 ob0 = Inr (- 1, w1, s1, ob1)"
  then show "search_loop m cb w0 s0 ob0 t = Inr (t, w1, s1, ob1)"
    by (rule search_loop_stop) simp
next
  fix w0 s0 ob0 t w1 s1 ob1
  assume "db_cursor_next m w0 s0 ob0 = Inr (1, w1, s1, ob1)"
  then show "search_loop m cb w0 s0 ob0 t = Inr (t, w1, s1, ob1)"
    by (rule search_loop_stop) simp
qed

text \<open>
  A whole search whose second fetch fails: one row was accepted, the result is 1, and
  the cursor is destroyed.
\<close>

lemma sample_search_fetch_error:
  "pbs_db_search (sample_modules sample_find_three sample_next_fail) True sample_world
           sample_job () sample_cb
     = Inr (1, \<lparr>ext = (), calls = [Malloc_state, Find_obj PBS_DB_JOB, Next_obj PBS_DB_JOB 0,
            Query_cb 1, Next_obj PBS_DB_JOB 1, PQclear 7, Free_state]\<rparr>)"
  unfolding pbs_db_search_def
  apply (simp add: db_initialize_state_def sample_defs note_call_def)
  apply (subst search_loop.simps, simp add: db_cursor_next_def note_call_def sample_defs)+
  apply (simp add: db_destroy_state_def note_call_def)
  done

text \<open>
  Claim C9 at that search: the fetch of row 1 fails, the result is 1, the number of rows
  accepted, after the fetches of rows 0 and 1 and one callback.
\<close>

theorem search_fetch_error_returns_total_witness:
  "row (sample_cursor 0 3) \<le> 1 \<and> 1 < count (sample_cursor 0 3) \<and>
   (\<exists>n w'. pbs_db_search (sample_modules sample_find_three sample_next_fail) True sample_world
        sample_job () sample_cb = Inr (n, w') \<and> n = 1 \<and> n = int (accepted w') \<and>
      fetched_rows w' = [0, 1] \<and> callbacks w' = 1)"
proof -
  let ?m = "sample_modules sample_find_three sample_next_fail"
  have f: "pbs_db_find_obj (db_fn_arr ?m (pbs_db_obj_type sample_job)) = Some sample_find_three"
    by (simp add: sample_defs)
  have r: "sample_find_three (ext sample_world)
      \<lparr>res = None, row = - 1, count = - 1, query_cb = sample_cb\<rparr> sample_job ()
        = (0, (), sample_cursor 0 3)"
    by (simp add: sample_defs)
  have 1: "pbs_db_next_obj (db_fn_arr ?m (pbs_db_obj_type sample_job)) \<noteq> None"
    by (simp add: sample_defs)
  have nx: "pbs_db_next_obj (db_fn_arr ?m k) = Some nxt \<Longrightarrow> nxt = sample_next_fail" for k nxt
    by (cases k) (auto simp: sample_modules_def)
  have 2: "\<forall>k nxt e s ob. pbs_db_next_obj (db_fn_arr ?m k) = Some nxt \<and> pbs_db_obj_type ob = k \<and>
             row (sample_cursor 0 3) \<le> row s \<and> row s < 1 \<longrightarrow>
             fst (nxt e s ob) = 0 \<and> pbs_db_obj_type (snd (snd (nxt e s ob))) = k"
  proof (intro allI impI)
    fix k nxt e and s :: "(unit, unit) db_query_state" and ob :: "unit pbs_db_obj_info"
    assume "pbs_db_next_obj (db_fn_arr ?m k) = Some nxt \<and> pbs_db_obj_type ob = k \<and>
      row (sample_cursor 0 3) \<le> row s \<and> row s < 1"
    then have "nxt = sample_next_fail" "pbs_db_obj_type ob = k" "row s < 1" using nx by auto
    then show "fst (nxt e s ob) = 0 \<and> pbs_db_obj_type (snd (snd (nxt e s ob))) = k"
      by (simp add: sample_next_fail_def)
  qed
  have 3: "\<forall>k nxt e s ob. pbs_db_next_obj (db_fn_arr ?m k) = Some nxt \<and> pbs_db_obj_type ob = k \<and>
             row s = 1 \<longrightarrow> fst (nxt e s ob) = - 1"
  proof (intro allI impI)
    fix k nxt e and s :: "(unit, unit) db_query_state" and ob :: "unit pbs_db_obj_info"
    assume "pbs_db_next_obj (db_fn_arr ?m k) = Some nxt \<and> pbs_db_obj_type ob = k \<and> row s = 1"
    then have "nxt = sample_next_fail" "row s = 1" using nx by auto
    then show "fst (nxt e s ob) = - 1" by (simp add: sample_next_fail_def)
  qed
  have 4: "\<forall>e ob. pbs_db_obj_type (snd (snd (sample_cb e ob))) = pbs_db_obj_type ob"
    by (simp add: sample_defs)
  have 5: "row (sample_cursor 0 3) \<le> 1" "1 < count (sample_cursor 0 3)"
    by (simp_all add: sample_defs)
  have all: "\<forall>e ob. fst (sample_cb e ob) \<noteq> 0" by (simp add: sample_cb_def)
  have rows: "[0..1::int] = [0, 1]" by (simp add: upto_rec1)
  have obs: "accepted sample_world = 0" "fetched_rows sample_world = []"
    "callbacks sample_world = 0"
    by (simp_all add: sample_world_def accepted_def fetched_rows_def callbacks_def)
  from search_fetch_error_returns_total [where m = ?m and cb = sample_cb and w = sample_world
      and K = 1, OF f r _ 1 2 3 4 5, THEN conjunct1]
  obtain n w' where "pbs_db_search ?m True sample_world sample_job () sample_cb = Inr (n, w')"
    "n = int (accepted w') - int (accepted sample_world)"
    "(\<forall>e ob. fst (sample_cb e ob) \<noteq> 0) \<longrightarrow> n = 1 - row (sample_cursor 0 3)"
    "fetched_rows w' = fetched_rows sample_world @ [row (sample_cursor 0 3)..1]"
    "callbacks w' = callbacks sample_world + nat (1 - row (sample_cursor 0 3))"
    by auto
  moreover have "row (sample_cursor 0 3) = 0" by (simp add: sample_cursor_def)
  ultimately have "pbs_db_search ?m True sample_world sample_job () sample_cb = Inr (n, w') \<and>
      n = 1 \<and> n = int (accepted w') \<and> fetched_rows w' = [0, 1] \<and> callbacks w' = 1"
    using all obs rows by simp
  with 5 show ?thesis by blast
qed

section \<open>Properties of the C library model\<close>

lemma digit_char_table:
  "\<forall>n<10. digit_char n \<in> set ''0123456789'' \<and> digit_val (digit_char n) = n"
  by (simp add: eval_nat_numeral All_less_Suc digit_char_def digit_val_def)

lemma digit_char_cases:
  "n < 10 \<Longrightarrow> digit_char n \<in> set ''0123456789'' \<and> digit_val (digit_char n) = n"
  using digit_char_table by blast

lemma c_isdigit_digit_char: "n < 10 \<Longrightarrow> c_isdigit (digit_char n)"
  using digit_char_cases [of n] by (simp add: c_isdigit_def)

lemma digits_value_append:
  "\<forall>c \<in> set xs. c_isdigit c \<Longrightarrow>
     digits_value acc (xs @ ys) = digits_value (digits_value acc xs) ys"
  by (induction xs arbitrary: acc) auto

lemma dec_nat_digits: "\<forall>c \<in> set (dec_nat n). c_isdigit c"
proof (induction n rule: dec_nat.induct)
  case (1 n)
  show ?case
  proof (cases "n < 10")
    case True
    then show ?thesis by (subst dec_nat.simps) (simp add: c_isdigit_digit_char)
  next
    case False
    with 1 show ?thesis
      by (subst dec_nat.simps) (simp add: c_isdigit_digit_char)
  qed
qed

lemma digits_value_all_digits:
  "\<forall>c \<in> set xs. c_isdigit c \<Longrightarrow> digits_value acc (xs @ [d]) =
     (if c_isdigit d then 10 * digits_value acc xs + digit_val d else digits_value acc xs)"
  by (simp add: digits_value_append)

lemma digits_value_dec_nat: "digits_value 0 (dec_nat n) = n"
proof (induction n rule: dec_nat.induct)
  case (1 n)
  show ?case
  proof (cases "n < 10")
    case True
    then show ?thesis
      by (subst dec_nat.simps) (simp add: c_isdigit_digit_char digit_char_cases)
  next
    case False
    then have "digits_value 0 (dec_nat n) =
        digits_value 0 (dec_nat (n div 10) @ [digit_char (n mod 10)])"
      by (subst dec_nat.simps) simp
    also have "\<dots> = 10 * digits_value 0 (dec_nat (n div 10)) + digit_val (digit_char (n mod 10))"
      by (simp add: digits_value_all_digits dec_nat_digits c_isdigit_digit_char)
    also have "\<dots> = 10 * (n div 10) + n mod 10"
      using 1 False by (simp add: digit_char_cases)
    finally show ?thesis by simp
  qed
qed

lemma dec_nat_nonempty: "dec_nat n \<noteq> []"
  by (subst dec_nat.simps) simp

lemma c_isdigit_not_space: "c_isdigit c \<Longrightarrow> \<not> c_isspace c \<and> c \<noteq> CHR ''-'' \<and> c \<noteq> CHR ''+''"
  by (auto simp: c_isdigit_def c_isspace_def)

lemma strtol_dec_nat: "strtol (dec_nat n) = min LONG_MAX (int n)"
proof -
  obtain c cs where d: "dec_nat n = c # cs"
    using dec_nat_nonempty [of n] by (cases "dec_nat n") auto
  with dec_nat_digits [of n] have "c_isdigit c" by simp
  from c_isdigit_not_space [OF this] d digits_value_dec_nat [of n]
  show ?thesis by (simp add: strtol_def)
qed

lemma strtol_empty: "strtol [] = 0"
  by (simp add: strtol_def LONG_MAX_def)

lemma strtol_examples: "strtol ''0'' = 0" "strtol ''17'' = 17"
  by (simp_all add: strtol_def LONG_MAX_def c_isspace_def c_isdigit_def digit_val_def)

section \<open>Result codes of statement execution\<close>

text \<open>
  Claim C6. Let the backend answer the prepared command with the result \<open>r\<close> and the ad
  hoc string with the result \<open>r2\<close>. The backend accepts a prepared command when the status
  is \<^verbatim>\<open>PGRES_COMMAND_OK\<close>, an ad hoc string when it is \<^verbatim>\<open>PGRES_COMMAND_OK\<close> or
  \<^verbatim>\<open>PGRES_TUPLES_OK\<close>.
  \<^item> \<^verbatim>\<open>db_cmd\<close>: accepted with no tuple count or a count that reads as 0 or less gives
    1; accepted with a positive count gives 0; the result is \<open>-1\<close> exactly when the backend
    did not accept. In the first two cases the cached error message is untouched.
  \<^item> \<^verbatim>\<open>db_execute_str\<close>: accepted with no or a non-positive count and no rows gives 1;
    accepted with a positive count or at least one row gives 0; \<open>-1\<close> exactly when not
    accepted.
  \<^item> The empty count and the count "0" read as 0, and the decimal text of every positive
    number reads as positive.
\<close>
theorem exec_no_rows_is_not_error:
  fixes exec_prepared :: "pg_conn \<Rightarrow> string \<Rightarrow> int \<Rightarrow> 'params \<Rightarrow> pg_result option \<times> pg_conn"
  assumes "exec_prepared conn stmt num_vars conn_data = (r, conn')"
    and "exec_str conn sql = (r2, conn2)"
  shows
    "(PQresultStatus r = PGRES_COMMAND_OK \<and>
        (PQcmdTuples r = None \<or> (\<exists>t. PQcmdTuples r = Some t \<and> strtol t \<le> 0)) \<longrightarrow>
        db_cmd exec_prepared conn_data conn stmt num_vars cache = (1, conn', cache)) \<and>
     (PQresultStatus r = PGRES_COMMAND_OK \<and> (\<exists>t. PQcmdTuples r = Some t \<and> 0 < strtol t) \<longrightarrow>
        db_cmd exec_prepared conn_data conn stmt num_vars cache = (0, conn', cache)) \<and>
     (fst (db_cmd exec_prepared conn_data conn stmt num_vars cache) = - 1
        \<longleftrightarrow> PQresultStatus r \<noteq> PGRES_COMMAND_OK) \<and>
     (PQresultStatus r2 \<in> {PGRES_COMMAND_OK, PGRES_TUPLES_OK} \<and>
        (PQcmdTuples r2 = None \<or> (\<exists>t. PQcmdTuples r2 = Some t \<and> strtol t \<le> 0)) \<and>
        PQntuples r2 \<le> 0 \<longrightarrow>
        db_execute_str exec_str conn sql cache = (1, conn2, cache)) \<and>
     (PQresultStatus r2 \<in> {PGRES_COMMAND_OK, PGRES_TUPLES_OK} \<and>
        ((\<exists>t. PQcmdTuples r2 = Some t \<and> 0 < strtol t) \<or> 0 < PQntuples r2) \<longrightarrow>
        db_execute_str exec_str conn sql cache = (0, conn2, cache)) \<and>
     (fst (db_execute_str exec_str conn sql cache) = - 1
        \<longleftrightarrow> PQresultStatus r2 \<notin> {PGRES_COMMAND_OK, PGRES_TUPLES_OK}) \<and>
     strtol [] = 0 \<and> strtol (dec_nat 0) = 0 \<and>
     (\<forall>n. 0 < n \<longrightarrow> 0 < strtol (dec_nat n))"
proof -
  have c: "(PQresultStatus r = PGRES_COMMAND_OK \<and>
        (PQcmdTuples r = None \<or> (\<exists>t. PQcmdTuples r = Some t \<and> strtol t \<le> 0)) \<longrightarrow>
        db_cmd exec_prepared conn_data conn stmt num_vars cache = (1, conn', cache)) \<and>
     (PQresultStatus r = PGRES_COMMAND_OK \<and> (\<exists>t. PQcmdTuples r = Some t \<and> 0 < strtol t) \<longrightarrow>
        db_cmd exec_prepared conn_data conn stmt num_vars cache = (0, conn', cache)) \<and>
     (fst (db_cmd exec_prepared conn_data conn stmt num_vars cache) = - 1
        \<longleftrightarrow> PQresultStatus r \<noteq> PGRES_COMMAND_OK)"
    using assms(1) by (auto simp: db_cmd_def Let_def split: option.splits)
  have s: "(PQresultStatus r2 \<in> {PGRES_COMMAND_OK, PGRES_TUPLES_OK} \<and>
        (PQcmdTuples r2 = None \<or> (\<exists>t. PQcmdTuples r2 = Some t \<and> strtol t \<le> 0)) \<and>
        PQntuples r2 \<le> 0 \<longrightarrow>
        db_execute_str exec_str conn sql cache = (1, conn2, cache)) \<and>
     (PQresultStatus r2 \<in> {PGRES_COMMAND_OK, PGRES_TUPLES_OK} \<and>
        ((\<exists>t. PQcmdTuples r2 = Some t \<and> 0 < strtol t) \<or> 0 < PQntuples r2) \<longrightarrow>
        db_execute_str exec_str conn sql cache = (0, conn2, cache)) \<and>
     (fst (db_execute_str exec_str conn sql cache) = - 1
        \<longleftrightarrow> PQresultStatus r2 \<notin> {PGRES_COMMAND_OK, PGRES_TUPLES_OK})"
    using assms(2) by (auto simp: db_execute_str_def Let_def split: option.splits)
  have n: "strtol [] = 0 \<and> strtol (dec_nat 0) = 0 \<and> (\<forall>n. 0 < n \<longrightarrow> 0 < strtol (dec_nat n))"
    by (simp add: strtol_empty strtol_dec_nat LONG_MAX_def)
  from c s n show ?thesis by blast
qed


text \<open>Claim C6 on an update that touched no row and on one that touched three.\<close>

theorem exec_no_rows_is_not_error_witness:
  "db_cmd (sample_exec_prepared (Some (sample_result PGRES_COMMAND_OK ''0'' 0))) ()
      sample_conn_ok ''update_job'' 2 None = (1, sample_conn_ok, None) \<and>
   db_execute_str (sample_exec_str (Some (sample_result PGRES_COMMAND_OK ''3'' 0)))
      sample_conn_ok ''delete from pbs.job'' None = (0, sample_conn_ok, None)"
proof -
  let ?r = "Some (sample_result PGRES_COMMAND_OK ''0'' 0)"
  let ?r2 = "Some (sample_result PGRES_COMMAND_OK ''3'' 0)"
  have 1: "sample_exec_prepared ?r sample_conn_ok ''update_job'' 2 () = (?r, sample_conn_ok)"
    by (simp add: sample_exec_prepared_def)
  have 2: "sample_exec_str ?r2 sample_conn_ok ''delete from pbs.job'' = (?r2, sample_conn_ok)"
    by (simp add: sample_exec_str_def)
  have 3: "PQresultStatus ?r = PGRES_COMMAND_OK \<and>
        (PQcmdTuples ?r = None \<or> (\<exists>t. PQcmdTuples ?r = Some t \<and> strtol t \<le> 0))"
    by (simp add: PQresultStatus_def PQcmdTuples_def sample_result_def strtol_examples)
  have "strtol ''3'' = 3"
    by (simp add: strtol_def LONG_MAX_def c_isspace_def c_isdigit_def digit_val_def)
  then have 4: "PQresultStatus ?r2 \<in> {PGRES_COMMAND_OK, PGRES_TUPLES_OK} \<and>
        ((\<exists>t. PQcmdTuples ?r2 = Some t \<and> 0 < strtol t) \<or> 0 < PQntuples ?r2)"
    by (simp add: PQresultStatus_def PQcmdTuples_def sample_result_def)
  from exec_no_rows_is_not_error [where exec_prepared = "sample_exec_prepared ?r"
      and exec_str = "sample_exec_str ?r2" and cache = None, OF 1 2] 3 4
  show ?thesis by blast
qed
section \<open>Classification of connection failures\<close>

lemma sublist_snoc_other:
  assumes "xs \<noteq> []" and "last xs \<noteq> c"
  shows "sublist xs (ys @ [c]) \<longleftrightarrow> sublist xs ys"
proof
  assume "sublist xs (ys @ [c])"
  then obtain ps ss where e: "ys @ [c] = ps @ xs @ ss"
    by (auto simp: sublist_def)
  show "sublist xs ys"
  proof (cases ss rule: rev_cases)
    case Nil
    with e have "last (ys @ [c]) = last (ps @ xs)" by simp
    with assms show ?thesis by simp
  next
    case (snoc ss' z)
    with e have "ys @ [c] = (ps @ xs @ ss') @ [z]" by simp
    then have "ys = ps @ xs @ ss'" by (simp only: append1_eq_conv)
    then show ?thesis by (auto simp: sublist_def)
  qed
next
  assume "sublist xs ys"
  then obtain ps ss where "ys = ps @ xs @ ss"
    by (auto simp: sublist_def)
  then have "ys @ [c] = ps @ xs @ (ss @ [c])" by simp
  then show "sublist xs (ys @ [c])"
    unfolding sublist_def by blast
qed

lemma trim_newlines_snoc:
  "trim_newlines (d @ [c]) = (if c = CHR 0x0D \<or> c = CHR 0x0A then trim_newlines d else d @ [c])"
  by (simp add: trim_newlines_def)

lemma sublist_trim_newlines:
  assumes "xs \<noteq> []" and "last xs \<noteq> CHR 0x0D" and "last xs \<noteq> CHR 0x0A"
  shows "sublist xs (trim_newlines d) \<longleftrightarrow> sublist xs d"
proof (induction d rule: rev_induct)
  case Nil
  show ?case by (simp add: trim_newlines_def)
next
  case (snoc c d)
  show ?case
  proof (cases "c = CHR 0x0D \<or> c = CHR 0x0A")
    case True
    with assms have "last xs \<noteq> c" by auto
    from sublist_snoc_other [OF assms(1) this] snoc True show ?thesis
      by (simp add: trim_newlines_snoc)
  next
    case False
    then show ?thesis by (simp add: trim_newlines_snoc)
  qed
qed

lemma conn_error_text:
  "db_set_error \<lparr>conn_status = s, errorMessage = Some d\<rparr> ''Connection:'' '''' (Some '''')
     = (\<lparr>conn_status = s, errorMessage = Some (trim_newlines d)\<rparr>,
        Some (''Connection:  failed: '' @ trim_newlines d @ '' ''))"
  by (simp add: db_set_error_def PQerrorMessage_def)

lemma strstr_conn_error_text:
  assumes "needle \<in> {''Connection refused'', ''No such file or directory'', ''authentication'',
      ''database system is starting up''}"
  shows "strstr (''Connection:  failed: '' @ trim_newlines d @ '' '') needle \<longleftrightarrow> sublist needle d"
proof -
  have n: "needle \<noteq> []" "last needle \<noteq> CHR 0x0D" "last needle \<noteq> CHR 0x0A" "last needle \<noteq> CHR '' ''"
    using assms by auto
  have "strstr (''Connection:  failed: '' @ trim_newlines d @ '' '') needle
      \<longleftrightarrow> sublist needle ((''Connection:  failed: '' @ trim_newlines d) @ [CHR '' ''])"
    by (simp add: strstr_def)
  also have "\<dots> \<longleftrightarrow> sublist needle (''Connection:  failed: '' @ trim_newlines d)"
    by (rule sublist_snoc_other [OF n(1) n(4)])
  also have "\<dots> \<longleftrightarrow> sublist needle (trim_newlines d)"
    using assms by (auto simp: sublist_Cons_right)
  also have "\<dots> \<longleftrightarrow> sublist needle d"
    by (rule sublist_trim_newlines [OF n(1) n(2) n(3)])
  finally show ?thesis .
qed

lemma is_conn_error_bad:
  assumes "conn_status c = CONNECTION_BAD" and "errorMessage c = Some d"
  shows "is_conn_error (Some c) fc cache =
     Inr (1,
          (if sublist ''Connection refused'' d \<or> sublist ''No such file or directory'' d
           then PBS_DB_CONNREFUSED
           else if sublist ''authentication'' d then PBS_DB_AUTH_FAILED
           else if sublist ''database system is starting up'' d then PBS_DB_STILL_STARTING
           else PBS_DB_CONNFAILED),
          Some (''Connection:  failed: '' @ trim_newlines d @ '' ''),
          Some (c\<lparr>errorMessage := Some (trim_newlines d)\<rparr>))"
proof -
  have c: "c = \<lparr>conn_status = CONNECTION_BAD, errorMessage = Some d\<rparr>"
    using assms by (cases c) simp
  show ?thesis
    unfolding is_conn_error_def c
    by (simp add: conn_error_text strstr_conn_error_text PQstatus_def del: append.simps)
qed

text \<open>
  Claim C4. \<^verbatim>\<open>is_conn_error\<close> on a null session sets the fail code
  \<^verbatim>\<open>PBS_DB_CONNFAILED\<close>. On a bad session with diagnostic text \<open>d\<close> the texts are tried
  in the order of the claim, the first that occurs in \<open>d\<close> deciding: "Connection refused"
  or "No such file or directory" gives \<^verbatim>\<open>PBS_DB_CONNREFUSED\<close>; otherwise "authentication"
  gives \<^verbatim>\<open>PBS_DB_AUTH_FAILED\<close>; otherwise "database system is starting up" gives
  \<^verbatim>\<open>PBS_DB_STILL_STARTING\<close>; any other diagnostic gives \<^verbatim>\<open>PBS_DB_CONNFAILED\<close>; in all
  these cases the function returns 1, and the session keeps its diagnostic without the
  trailing line ends. On a healthy session it returns 0 and leaves the fail code, the
  cached message and the session alone. (The search runs over the cached message
  "Connection:  failed: d' " with \<open>d'\<close> the diagnostic without trailing line ends; a text of
  the claim occurs in it exactly when it occurs in \<open>d\<close>.)
\<close>
theorem is_conn_error_classification:
  assumes "conn_status c = CONNECTION_BAD" and "errorMessage c = Some d"
    and "conn_status h = CONNECTION_OK"
  shows
    "is_conn_error None fc cache = Inr (1, PBS_DB_CONNFAILED, cache, None) \<and>
     (sublist ''Connection refused'' d \<or> sublist ''No such file or directory'' d \<longrightarrow>
        (\<exists>text. is_conn_error (Some c) fc cache
           = Inr (1, PBS_DB_CONNREFUSED, Some text, Some (c\<lparr>errorMessage := Some (trim_newlines d)\<rparr>)))) \<and>
     (\<not> sublist ''Connection refused'' d \<and> \<not> sublist ''No such file or directory'' d \<and>
      sublist ''authentication'' d \<longrightarrow>
        (\<exists>text. is_conn_error (Some c) fc cache
           = Inr (1, PBS_DB_AUTH_FAILED, Some text, Some (c\<lparr>errorMessage := Some (trim_newlines d)\<rparr>)))) \<and>
     (\<not> sublist ''Connection refused'' d \<and> \<not> sublist ''No such file or directory'' d \<and>
      \<not> sublist ''authentication'' d \<and> sublist ''database system is starting up'' d \<longrightarrow>
        (\<exists>text. is_conn_error (Some c) fc cache
           = Inr (1, PBS_DB_STILL_STARTING, Some text, Some (c\<lparr>errorMessage := Some (trim_newlines d)\<rparr>)))) \<and>
     (\<not> sublist ''Connection refused'' d \<and> \<not> sublist ''No such file or directory'' d \<and>
      \<not> sublist ''authentication'' d \<and> \<not> sublist ''database system is starting up'' d \<longrightarrow>
        (\<exists>text. is_conn_error (Some c) fc cache
           = Inr (1, PBS_DB_CONNFAILED, Some text, Some (c\<lparr>errorMessage := Some (trim_newlines d)\<rparr>)))) \<and>
     is_conn_error (Some h) fc cache = Inr (0, fc, cache, Some h)"
proof -
  have "is_conn_error None fc cache = Inr (1, PBS_DB_CONNFAILED, cache, None)"
    by (simp add: is_conn_error_def)
  moreover have "is_conn_error (Some h) fc cache = Inr (0, fc, cache, Some h)"
    using assms(3) by (simp add: is_conn_error_def PQstatus_def)
  ultimately show ?thesis
    using is_conn_error_bad [OF assms(1,2), of fc cache] by simp
qed

text \<open>Claim C4 on an authentication failure and on a healthy session.\<close>

theorem is_conn_error_classification_witness:
  "is_conn_error (Some (sample_conn_bad (''FATAL:  password authentication failed'' @ [CHR 0x0A])))
      PBS_DB_SUCCESS None
     = Inr (1, PBS_DB_AUTH_FAILED,
            Some ''Connection:  failed: FATAL:  password authentication failed '',
            Some (sample_conn_bad ''FATAL:  password authentication failed'')) \<and>
   is_conn_error (Some sample_conn_ok) PBS_DB_SUCCESS None
     = Inr (0, PBS_DB_SUCCESS, None, Some sample_conn_ok)"
proof -
  let ?d = "''FATAL:  password authentication failed'' @ [CHR 0x0A]"
  have 1: "conn_status (sample_conn_bad ?d) = CONNECTION_BAD"
    and 2: "errorMessage (sample_conn_bad ?d) = Some ?d"
    and 3: "conn_status sample_conn_ok = CONNECTION_OK"
    by (simp_all add: sample_conn_bad_def sample_conn_ok_def)
  have 4: "\<not> sublist ''Connection refused'' ?d \<and> \<not> sublist ''No such file or directory'' ?d \<and>
      sublist ''authentication'' ?d"
    by (simp add: sublist_Cons_right)
  have 5: "is_conn_error (Some (sample_conn_bad ?d)) PBS_DB_SUCCESS None
     = Inr (1, PBS_DB_AUTH_FAILED,
            Some ''Connection:  failed: FATAL:  password authentication failed '',
            Some (sample_conn_bad ''FATAL:  password authentication failed''))
     \<longleftrightarrow> (\<exists>text. is_conn_error (Some (sample_conn_bad ?d)) PBS_DB_SUCCESS None
           = Inr (1, PBS_DB_AUTH_FAILED, Some text,
                  Some ((sample_conn_bad ?d)\<lparr>errorMessage := Some (trim_newlines ?d)\<rparr>)))"
    by (simp add: is_conn_error_def sample_conn_bad_def PQstatus_def db_set_error_def
        PQerrorMessage_def trim_newlines_def strstr_def sublist_Cons_right)
  from is_conn_error_classification [OF 1 2 3, of PBS_DB_SUCCESS None] 4 5
  show ?thesis by blast
qed

section \<open>Schema migration by version\<close>

lemma mark_nodes_all: "\<forall>n \<in> set (mark_nodes v ns). nd_modified n = v"
  by (induction ns) simp_all

lemma mark_nodes_names: "map nd_name (mark_nodes v ns) = map nd_name ns"
  by (induction ns) simp_all

text \<open>
  Claim C5. Let the version reader succeed with the version (major, minor) and the state
  \<open>s1\<close>, let the warm start on \<open>s1\<close> return \<open>rc1\<close> and the state \<open>s2\<close>, and let the bulk
  save of \<open>s2\<close> with every node marked return \<open>rc2\<close> and the state \<open>s4\<close>.
  \<^item> Version (1,0): a failing warm start gives \<open>-1\<close> and the state \<open>s2\<close> (no node is marked
    or saved); otherwise every node of \<open>s2\<close> is given the flag \<^verbatim>\<open>NODE_UPDATE_OTHERS\<close>, the
    node list being otherwise the same, and the nodes are saved: a failing save gives
    \<open>-1\<close> (and a log line), a successful one gives 0 and the state \<open>s4\<close>.
  \<^item> Version (3,0): the result is 0 and the state is \<open>s1\<close>, unchanged.
  \<^item> Any other version: the result is \<open>-1\<close>; the datastore, the node list and the cached
    connection error are those of \<open>s1\<close> (only the log and \<^verbatim>\<open>stderr\<close> receive a message).
\<close>
theorem svr_migrate_data_by_version:
  assumes "pbs_db_get_schema_version env s = (0, major, minor, s1)"
    and "pbsd_init env (RECOV_WARM env) s1 = (rc1, s2)"
    and "save_nodes_db env 0 (s2\<lparr>pbsndlist := mark_nodes (NODE_UPDATE_OTHERS env) (pbsndlist s2)\<rparr>)
           = (rc2, s4)"
  shows
    "(major = 1 \<and> minor = 0 \<and> rc1 \<noteq> 0 \<longrightarrow> svr_migrate_data env s = (- 1, s2)) \<and>
     (major = 1 \<and> minor = 0 \<and> rc1 = 0 \<and> rc2 \<noteq> 0 \<longrightarrow>
        svr_migrate_data env s = (- 1, log_err ''save_nodes_db failed!'' s4)) \<and>
     (major = 1 \<and> minor = 0 \<and> rc1 = 0 \<and> rc2 = 0 \<longrightarrow> svr_migrate_data env s = (0, s4)) \<and>
     (\<forall>n \<in> set (mark_nodes (NODE_UPDATE_OTHERS env) (pbsndlist s2)).
        nd_modified n = NODE_UPDATE_OTHERS env) \<and>
     map nd_name (mark_nodes (NODE_UPDATE_OTHERS env) (pbsndlist s2)) = map nd_name (pbsndlist s2) \<and>
     (major = 3 \<and> minor = 0 \<longrightarrow> svr_migrate_data env s = (0, s1)) \<and>
     (\<not> (major = 1 \<and> minor = 0) \<and> \<not> (major = 3 \<and> minor = 0) \<longrightarrow>
        fst (svr_migrate_data env s) = - 1 \<and>
        svr_db (snd (svr_migrate_data env s)) = svr_db s1 \<and>
        pbsndlist (snd (svr_migrate_data env s)) = pbsndlist s1 \<and>
        conn_db_err (snd (svr_migrate_data env s)) = conn_db_err s1)"
  using assms
  by (auto simp: svr_migrate_data_def Let_def log_err_def fprintf_stderr_def mark_nodes_all
      mark_nodes_names)

lemmas sample_migrate_defs = sample_server_def sample_pbsd_init_def sample_save_nodes_db_def
  sample_migrate_env_def

text \<open>Claim C5 on the versions 1.0, 3.0 and 2.7 of the sample server.\<close>

theorem svr_migrate_data_by_version_witness:
  "svr_migrate_data (sample_migrate_env 1 0) sample_server
     = (0, sample_server\<lparr>svr_db := [(''n1'', 1), (''n2'', 1)],
              pbsndlist := [\<lparr>nd_name = ''n1'', nd_modified = 0\<rparr>,
                            \<lparr>nd_name = ''n2'', nd_modified = 0\<rparr>]\<rparr>) \<and>
   svr_migrate_data (sample_migrate_env 3 0) sample_server = (0, sample_server) \<and>
   fst (svr_migrate_data (sample_migrate_env 2 7) sample_server) = - 1 \<and>
   svr_db (snd (svr_migrate_data (sample_migrate_env 2 7) sample_server)) = svr_db sample_server"
proof -
  let ?s2 = "sample_server\<lparr>pbsndlist := [\<lparr>nd_name = ''n1'', nd_modified = 0\<rparr>,
                          \<lparr>nd_name = ''n2'', nd_modified = 0\<rparr>]\<rparr>"
  let ?s4 = "sample_server\<lparr>svr_db := [(''n1'', 1), (''n2'', 1)],
              pbsndlist := [\<lparr>nd_name = ''n1'', nd_modified = 0\<rparr>,
                            \<lparr>nd_name = ''n2'', nd_modified = 0\<rparr>]\<rparr>"
  have v: "pbs_db_get_schema_version (sample_migrate_env a b) sample_server = (0, a, b, sample_server)"
    for a b by (simp add: sample_migrate_env_def)
  have i: "pbsd_init (sample_migrate_env a b) (RECOV_WARM (sample_migrate_env a b)) sample_server
      = (0, ?s2)" for a b
    by (simp add: sample_migrate_defs)
  have sv: "save_nodes_db (sample_migrate_env a b) 0
      (?s2\<lparr>pbsndlist := mark_nodes (NODE_UPDATE_OTHERS (sample_migrate_env a b)) (pbsndlist ?s2)\<rparr>)
      = (0, ?s4)" for a b
    by (simp add: sample_migrate_defs)
  from svr_migrate_data_by_version [OF v i sv, of 1 0]
    svr_migrate_data_by_version [OF v i sv, of 3 0]
    svr_migrate_data_by_version [OF v i sv, of 2 7]
  show ?thesis by simp
qed

section \<open>Escaping the password\<close>

lemma length_escaped_le: "length (escaped src) \<le> 2 * length src"
  by (induction src) (simp_all add: escaped_def)

lemma escaped_Cons:
  "escaped (c # src) = (if c = CHR 0x27 \<or> c = CHR 0x5C then [CHR 0x5C, c] else [c]) @ escaped src"
  by (simp add: escaped_def)

lemma escaped_Nil: "escaped [] = []"
  by (simp add: escaped_def)

lemma escape_passwd_loop_escaped:
  "int (length written + 2 * length src) < len \<Longrightarrow>
     escape_passwd_loop written src len = written @ escaped src"
proof (induction src arbitrary: written)
  case Nil
  show ?case by (simp add: escaped_Nil)
next
  case (Cons c src)
  then have "int (length written) < len" by simp
  moreover have "int (length ((if c = CHR 0x27 \<or> c = CHR 0x5C then written @ [CHR 0x5C] else written) @ [c])
      + 2 * length src) < len"
    using Cons.prems by simp
  ultimately show ?case
    using Cons.IH [of "(if c = CHR 0x27 \<or> c = CHR 0x5C then written @ [CHR 0x5C] else written) @ [c]"]
    by (simp add: escaped_Cons)
qed

lemma escape_passwd_fits:
  assumes "int (2 * length src + 1) \<le> len"
  shows "escape_passwd src len = Inr (escaped src)"
proof -
  from assms have "int (length ([] :: string) + 2 * length src) < len" by simp
  then have "escape_passwd_loop [] src len = escaped src"
    by (simp add: escape_passwd_loop_escaped)
  moreover have "int (length (escaped src)) < len"
    using length_escaped_le [of src] assms by simp
  ultimately show ?thesis by (simp add: escape_passwd_def)
qed

lemma unescape_plain: "c \<noteq> CHR 0x5C \<Longrightarrow> unescape (c # xs) = c # unescape xs"
  by (cases xs) simp_all

lemma unescape_escaped: "unescape (escaped src) = src"
  by (induction src) (simp_all add: escaped_Cons escaped_Nil unescape_plain)

lemma conninfo_quoted_close: "conninfo_quoted acc (CHR 0x27 # xs) = Some (acc, xs)"
  by (cases xs) simp_all

lemma conninfo_quoted_plain:
  "c \<noteq> CHR 0x5C \<Longrightarrow> c \<noteq> CHR 0x27 \<Longrightarrow> xs \<noteq> [] \<Longrightarrow>
     conninfo_quoted acc (c # xs) = conninfo_quoted (acc @ [c]) xs"
  by (cases xs) simp_all

lemma conninfo_quoted_escaped:
  "conninfo_quoted acc (escaped v @ CHR 0x27 # rest) = Some (acc @ v, rest)"
proof (induction v arbitrary: acc)
  case Nil
  show ?case by (simp add: escaped_Nil conninfo_quoted_close)
next
  case (Cons c v)
  show ?case
  proof (cases "c = CHR 0x27 \<or> c = CHR 0x5C")
    case True
    then show ?thesis using Cons [of "acc @ [c]"] by (auto simp: escaped_Cons)
  next
    case False
    then show ?thesis using Cons [of "acc @ [c]"]
      by (simp add: escaped_Cons conninfo_quoted_plain)
  qed
qed

text \<open>
  Claim C7. For a destination of at least twice the length of the source plus one bytes,
  \<^verbatim>\<open>escape_passwd\<close> stays inside the destination and leaves there the source with a
  backslash before every backslash and every single quote and all other bytes as they
  are; dropping the escaping backslashes gives the source back, and so does reading the
  text as a quoted value of a connection string.
\<close>
theorem escape_passwd_roundtrip:
  assumes "int (2 * length src + 1) \<le> len"
  shows "escape_passwd src len = Inr (escaped src) \<and>
         unescape (escaped src) = src \<and>
         conninfo_quoted [] (escaped src @ CHR 0x27 # rest) = Some (src, rest)"
  using assms by (simp add: escape_passwd_fits unescape_escaped conninfo_quoted_escaped)

text \<open>Claim C7 on a password with a quote and a backslash.\<close>

theorem escape_passwd_roundtrip_witness:
  "escape_passwd (''it's a'' @ [CHR 0x5C] @ ''b'') 17
     = Inr (''it'' @ [CHR 0x5C, CHR 0x27] @ ''s a'' @ [CHR 0x5C, CHR 0x5C] @ ''b'') \<and>
   unescape (''it'' @ [CHR 0x5C, CHR 0x27] @ ''s a'' @ [CHR 0x5C, CHR 0x5C] @ ''b'')
     = ''it's a'' @ [CHR 0x5C] @ ''b''"
proof -
  have "int (2 * length (''it's a'' @ [CHR 0x5C] @ ''b'') + 1) \<le> 17" by simp
  from escape_passwd_roundtrip [OF this, of "[]"] show ?thesis
    by (simp add: escaped_def)
qed

section \<open>Reading a connection string\<close>

lemma escaped_plain: "CHR 0x27 \<notin> set s \<Longrightarrow> CHR 0x5C \<notin> set s \<Longrightarrow> escaped s = s"
  by (induction s) (auto simp: escaped_Cons escaped_Nil)

lemma conninfo_unquoted_plain:
  "\<not> c_isspace c \<Longrightarrow> c \<noteq> CHR 0x5C \<Longrightarrow> xs \<noteq> [] \<Longrightarrow>
     conninfo_unquoted acc (c # xs) = conninfo_unquoted (acc @ [c]) xs"
  by (cases xs) simp_all

lemma conninfo_unquoted_space:
  "\<forall>c \<in> set v. \<not> c_isspace c \<and> c \<noteq> CHR 0x5C \<Longrightarrow>
     conninfo_unquoted acc (v @ CHR '' '' # rest) = (acc @ v, rest)"
proof (induction v arbitrary: acc)
  case Nil
  show ?case by (cases rest) (simp_all add: c_isspace_def)
next
  case (Cons c v)
  then show ?case by (simp add: conninfo_unquoted_plain)
qed

lemma conninfo_unquoted_end:
  "\<forall>c \<in> set v. \<not> c_isspace c \<and> c \<noteq> CHR 0x5C \<Longrightarrow> conninfo_unquoted acc v = (acc @ v, [])"
proof (induction v arbitrary: acc)
  case Nil
  show ?case by simp
next
  case (Cons c v)
  then show ?case by (cases v) simp_all
qed

lemma conninfo_key_eq:
  "\<forall>c \<in> set k. \<not> c_isspace c \<and> c \<noteq> CHR ''='' \<Longrightarrow>
     conninfo_key acc (k @ CHR '' '' # CHR ''='' # rest) = (acc @ k, CHR ''='' # rest)"
  by (induction k arbitrary: acc) (simp_all add: c_isspace_def)

lemma parse_step_quoted:
  assumes "key_chars k"
  shows "conninfo_parse_upto (Suc n) (k @ '' = '' @ CHR 0x27 # escaped v @ CHR 0x27 # rest)
     = map_option ((#) (k, v)) (conninfo_parse_upto n rest)"
proof -
  from assms obtain c k' where k: "k = c # k'" and c: "\<not> c_isspace c"
    by (cases k) (auto simp: key_chars_def)
  have key: "conninfo_key [] (k @ CHR '' '' # CHR ''='' # CHR '' '' # CHR 0x27 # escaped v @ CHR 0x27 # rest)
      = (k, CHR ''='' # CHR '' '' # CHR 0x27 # escaped v @ CHR 0x27 # rest)"
    using assms conninfo_key_eq [of k "[]"] by (simp add: key_chars_def)
  have sp: "dropWhile c_isspace (CHR '' '' # CHR 0x27 # escaped v @ CHR 0x27 # rest)
      = CHR 0x27 # escaped v @ CHR 0x27 # rest"
    by (simp add: c_isspace_def)
  have "conninfo_parse_upto (Suc n) (c # k' @ CHR '' '' # CHR ''='' # CHR '' '' # CHR 0x27 # escaped v @ CHR 0x27 # rest)
     = map_option ((#) (k, v)) (conninfo_parse_upto n rest)"
    using c key sp by (simp add: k conninfo_quoted_escaped del: dropWhile.simps)
  then show ?thesis by (simp add: k)
qed

lemma parse_step_word:
  assumes "key_chars k" and "word_chars v"
  shows "conninfo_parse_upto (Suc n) (k @ '' = '' @ v @ CHR '' '' # rest)
     = map_option ((#) (k, v)) (conninfo_parse_upto n rest)"
proof -
  from assms obtain c k' where k: "k = c # k'" and c: "\<not> c_isspace c"
    by (cases k) (auto simp: key_chars_def)
  from assms obtain q v' where v: "v = q # v'" and q: "q \<noteq> CHR 0x27" "\<not> c_isspace q"
    by (cases v) (auto simp: word_chars_def)
  have key: "conninfo_key [] (k @ CHR '' '' # CHR ''='' # CHR '' '' # v @ CHR '' '' # rest)
      = (k, CHR ''='' # CHR '' '' # v @ CHR '' '' # rest)"
    using assms conninfo_key_eq [of k "[]"] by (simp add: key_chars_def)
  have sp: "dropWhile c_isspace (CHR '' '' # q # v' @ CHR '' '' # rest) = q # v' @ CHR '' '' # rest"
    using q by (simp add: c_isspace_def)
  have val: "conninfo_unquoted [] (q # v' @ CHR '' '' # rest) = (v, rest)"
    using assms(2) conninfo_unquoted_space [of v "[]" rest] by (simp add: word_chars_def v)
  have "conninfo_parse_upto (Suc n) (c # k' @ CHR '' '' # CHR ''='' # CHR '' '' # q # v' @ CHR '' '' # rest)
     = map_option ((#) (k, v)) (conninfo_parse_upto n rest)"
    using c key sp val q by (simp add: k v del: dropWhile.simps)
  then show ?thesis by (simp add: k v)
qed

lemma parse_step_last_word:
  assumes "key_chars k" and "word_chars v"
  shows "conninfo_parse_upto (Suc n) (k @ '' = '' @ v) = Some [(k, v)]"
proof -
  from assms obtain c k' where k: "k = c # k'" and c: "\<not> c_isspace c"
    by (cases k) (auto simp: key_chars_def)
  from assms obtain q v' where v: "v = q # v'" and q: "q \<noteq> CHR 0x27" "\<not> c_isspace q"
    by (cases v) (auto simp: word_chars_def)
  have key: "conninfo_key [] (k @ CHR '' '' # CHR ''='' # CHR '' '' # v)
      = (k, CHR ''='' # CHR '' '' # v)"
    using assms conninfo_key_eq [of k "[]"] by (simp add: key_chars_def)
  have sp: "dropWhile c_isspace (CHR '' '' # q # v') = q # v'"
    using q by (simp add: c_isspace_def)
  have val: "conninfo_unquoted [] (q # v') = (v, [])"
    using assms(2) conninfo_unquoted_end [of v "[]"] by (simp add: word_chars_def v)
  have "conninfo_parse_upto (Suc n) (c # k' @ CHR '' '' # CHR ''='' # CHR '' '' # q # v')
     = Some [(k, v)]"
    using c key sp val q by (simp add: k v del: dropWhile.simps)
  then show ?thesis by (simp add: k v)
qed

lemma parse_step_space:
  "conninfo_parse_upto (Suc n) (CHR '' '' # rest) = conninfo_parse_upto n rest"
  by (simp add: c_isspace_def)

lemma parse_upto_Suc:
  assumes "\<not> c_isspace c" and "conninfo_key [] (c # cs) = (key, CHR ''='' # rest1)"
    and "dropWhile c_isspace rest1 = rest2"
  shows "conninfo_parse_upto (Suc n) (c # cs) =
     (case rest2 of
        [] \<Rightarrow> Some [(key, [])]
      | q # rest3 \<Rightarrow>
          if q = CHR 0x27 then
            (case conninfo_quoted [] rest3 of
               None \<Rightarrow> None
             | Some (v, rest4) \<Rightarrow> map_option ((#) (key, v)) (conninfo_parse_upto n rest4))
          else
            (case conninfo_unquoted [] (q # rest3) of
               (v, rest4) \<Rightarrow> map_option ((#) (key, v)) (conninfo_parse_upto n rest4)))"
  using assms
  by (simp del: conninfo_key.simps dropWhile_eq_Nil_conv dropWhile_eq_Cons_conv)

lemma parse_upto_mono:
  "conninfo_parse_upto n s = Some r \<Longrightarrow> n \<le> m \<Longrightarrow> conninfo_parse_upto m s = Some r"
proof (induction n s arbitrary: m r rule: conninfo_parse_upto.induct)
  case (1 n)
  then show ?case by simp
next
  case (2 c cs)
  then show ?case by simp
next
  case (3 n c cs)
  from "3.prems" obtain m' where m: "m = Suc m'" and le: "n \<le> m'"
    by (cases m) auto
  show ?case
  proof (cases "c_isspace c")
    case True
    with "3.prems"(1) have "conninfo_parse_upto n cs = Some r" by simp
    from "3.IH"(1) [OF True this le] True show ?thesis by (simp add: m)
  next
    case False
    note c = False
    obtain key rest where k: "conninfo_key [] (c # cs) = (key, rest)"
      by (cases "conninfo_key [] (c # cs)") auto
    show ?thesis
    proof (cases rest)
      case Nil
      with "3.prems"(1) c k show ?thesis
        by (simp del: conninfo_key.simps)
    next
      case (Cons e rest1)
      note rest = Cons
      show ?thesis
      proof (cases "e = CHR ''=''")
        case False
        with "3.prems"(1) c k rest show ?thesis
          by (simp del: conninfo_key.simps)
      next
        case True
        note e = True
        obtain rest2 where dw: "dropWhile c_isspace rest1 = rest2" by simp
        from k rest e have k': "conninfo_key [] (c # cs) = (key, CHR ''='' # rest1)" by simp
        let ?body = "\<lambda>k. case rest2 of
            [] \<Rightarrow> Some [(key, [])]
          | q # rest3 \<Rightarrow>
              if q = CHR 0x27 then
                (case conninfo_quoted [] rest3 of
                   None \<Rightarrow> None
                 | Some (v, rest4) \<Rightarrow> map_option ((#) (key, v)) (conninfo_parse_upto k rest4))
              else
                (case conninfo_unquoted [] (q # rest3) of
                   (v, rest4) \<Rightarrow> map_option ((#) (key, v)) (conninfo_parse_upto k rest4))"
        have un: "conninfo_parse_upto (Suc n) (c # cs) = ?body n"
          by (rule parse_upto_Suc [OF c k' dw])
        have um: "conninfo_parse_upto (Suc m') (c # cs) = ?body m'"
          by (rule parse_upto_Suc [OF c k' dw])
        from "3.prems"(1) have En: "?body n = Some r"
          by (simp only: un)
        have "?body m' = Some r"
        proof (cases rest2)
          case Nil
          with En show ?thesis by simp
        next
          case (Cons q rest3)
          note r2 = Cons
          have d: "dropWhile c_isspace rest1 = q # rest3" using dw r2 by simp
          show ?thesis
          proof (cases "q = CHR 0x27")
            case True
            note q = True
            show ?thesis
            proof (cases "conninfo_quoted [] rest3")
              case None
              with En r2 q show ?thesis by simp
            next
              case (Some a)
              obtain v rest4 where a: "a = (v, rest4)" by (cases a) auto
              from En r2 q Some a
              obtain r' where r': "conninfo_parse_upto n rest4 = Some r'" "r = (key, v) # r'"
                by auto
              from "3.IH"(2) [OF c k [symmetric] rest _ d _ Some [unfolded a] refl r'(1) le] e q
              have "conninfo_parse_upto m' rest4 = Some r'" by simp
              with r2 q Some a r' show ?thesis by simp
            qed
          next
            case False
            note q = False
            obtain v rest4 where a: "conninfo_unquoted [] (q # rest3) = (v, rest4)"
              by (cases "conninfo_unquoted [] (q # rest3)") auto
            from En r2 q a
            obtain r' where r': "conninfo_parse_upto n rest4 = Some r'" "r = (key, v) # r'"
              by auto
            from "3.IH"(3) [OF c k [symmetric] rest _ d _ a [symmetric] r'(1) le] e q
            have "conninfo_parse_upto m' rest4 = Some r'" by simp
            with r2 q a r' show ?thesis by simp
          qed
        qed
        then show ?thesis by (simp only: m um)
      qed
    qed
  qed
qed

section \<open>Decimal numbers and numeric addresses\<close>

lemma length_dec_nat: "0 < k \<Longrightarrow> n < 10 ^ k \<Longrightarrow> length (dec_nat n) \<le> k"
proof (induction k arbitrary: n)
  case 0
  then show ?case by simp
next
  case (Suc k)
  show ?case
  proof (cases "n < 10")
    case True
    then show ?thesis by (subst dec_nat.simps) simp
  next
    case False
    with Suc.prems have "0 < k" by (cases k) auto
    moreover from Suc.prems have "n div 10 < 10 ^ k" by (simp add: less_mult_imp_div_less mult.commute)
    ultimately have "length (dec_nat (n div 10)) \<le> k" by (rule Suc.IH)
    with False show ?thesis by (subst dec_nat.simps) simp
  qed
qed

lemma c_isdigit_plain:
  "c_isdigit c \<Longrightarrow> \<not> c_isspace c \<and> c \<noteq> CHR 0x5C \<and> c \<noteq> CHR 0x27 \<and> c \<noteq> CHR ''.'' \<and> c \<noteq> CHR ''=''"
  by (auto simp: c_isdigit_def c_isspace_def)

lemma dec_nat_plain: "CHR 0x27 \<notin> set (dec_nat n) \<and> CHR 0x5C \<notin> set (dec_nat n)"
  using dec_nat_digits [of n] c_isdigit_plain by blast

lemma word_chars_dec_nat: "word_chars (dec_nat n)"
proof -
  have "\<forall>c \<in> set (dec_nat n). \<not> c_isspace c \<and> c \<noteq> CHR 0x5C \<and> c \<noteq> CHR 0x27"
    using dec_nat_digits [of n] c_isdigit_plain by blast
  moreover have "hd (dec_nat n) \<in> set (dec_nat n)" by (simp add: dec_nat_nonempty)
  ultimately show ?thesis by (simp add: word_chars_def dec_nat_nonempty)
qed

lemma word_chars_dec_int: "word_chars (dec_int i)"
  using word_chars_dec_nat [of "nat i"] word_chars_dec_nat [of "nat (- i)"]
  by (simp add: dec_int_def word_chars_def c_isspace_def)

lemma length_dec_int:
  assumes "- (2 ^ 31) \<le> i" and "i < 2 ^ 31"
  shows "length (dec_int i) \<le> 11"
proof -
  have "nat i < 10 ^ 10" "nat (- i) < 10 ^ 10" using assms by simp_all
  then have "length (dec_nat (nat i)) \<le> 10" "length (dec_nat (nat (- i))) \<le> 10"
    by (simp_all add: length_dec_nat)
  then show ?thesis by (simp add: dec_int_def)
qed

lemma split_dots_digits:
  "\<forall>c \<in> set xs. c_isdigit c \<Longrightarrow> split_dots part (xs @ ys) = split_dots (part @ xs) ys"
  by (induction xs arbitrary: part) (auto dest: c_isdigit_plain)

lemma split_dots_dot: "split_dots part (CHR ''.'' # ys) = part # split_dots [] ys"
  by simp

lemma octet_text:
  assumes "n < 256"
  shows "dec_nat n \<noteq> [] \<and> length (dec_nat n) \<le> 3 \<and> (\<forall>c \<in> set (dec_nat n). c_isdigit c)
     \<and> digits_value 0 (dec_nat n) \<le> 255"
proof -
  from assms have "n < 10 ^ 3" by simp
  then have "length (dec_nat n) \<le> 3" by (simp add: length_dec_nat)
  with assms show ?thesis
    by (simp add: dec_nat_nonempty dec_nat_digits digits_value_dec_nat)
qed

lemma ipv4_literal_octets:
  assumes "a < 256" "b < 256" "c < 256" "d < 256"
  shows "ipv4_literal (dec_nat a @ ''.'' @ dec_nat b @ ''.'' @ dec_nat c @ ''.'' @ dec_nat d)"
proof -
  have "split_dots [] (dec_nat a @ CHR ''.'' # dec_nat b @ CHR ''.'' # dec_nat c @ CHR ''.'' # dec_nat d @ [])
      = [dec_nat a, dec_nat b, dec_nat c, dec_nat d]"
    by (simp only: split_dots_digits [OF dec_nat_digits] split_dots_dot split_dots.simps(1)
        append_Nil)
  then have "split_dots [] (dec_nat a @ ''.'' @ dec_nat b @ ''.'' @ dec_nat c @ ''.'' @ dec_nat d)
      = [dec_nat a, dec_nat b, dec_nat c, dec_nat d]"
    by simp
  with octet_text [OF assms(1)] octet_text [OF assms(2)] octet_text [OF assms(3)]
    octet_text [OF assms(4)]
  show ?thesis by (simp add: ipv4_literal_def)
qed

lemma htonl_octets: "\<forall>n \<in> set (htonl w). n < 256"
proof -
  have "unat w < 2 ^ 32" using unsigned_less [of w] by simp
  then have "unat w div 2 ^ 24 < 256" by (simp add: less_mult_imp_div_less)
  then show ?thesis by (simp add: htonl_def)
qed

lemma inet_ntoa_htonl:
  "\<exists>ip. inet_ntoa (htonl w) = Some ip \<and> ipv4_literal ip \<and> length ip \<le> 15
     \<and> CHR 0x27 \<notin> set ip \<and> CHR 0x5C \<notin> set ip"
proof -
  obtain a b c d where h: "htonl w = [a, b, c, d]" by (simp add: htonl_def)
  with htonl_octets [of w] have lt: "a < 256" "b < 256" "c < 256" "d < 256" by simp_all
  let ?ip = "dec_nat a @ ''.'' @ dec_nat b @ ''.'' @ dec_nat c @ ''.'' @ dec_nat d"
  have "inet_ntoa (htonl w) = Some ?ip" by (simp add: h inet_ntoa_def)
  moreover have "ipv4_literal ?ip" using lt by (rule ipv4_literal_octets)
  moreover have "length ?ip \<le> 15"
    using octet_text [OF lt(1)] octet_text [OF lt(2)] octet_text [OF lt(3)] octet_text [OF lt(4)]
    by simp
  moreover have "CHR 0x27 \<notin> set ?ip \<and> CHR 0x5C \<notin> set ?ip"
    by (simp add: dec_nat_plain)
  ultimately show ?thesis by blast
qed

section \<open>The connection string and its fields\<close>

lemma key_chars_descriptor:
  "key_chars ''hostaddr''" "key_chars ''port''" "key_chars ''dbname''" "key_chars ''user''"
  "key_chars ''password''" "key_chars ''connect_timeout''"
  by (simp_all add: key_chars_def c_isspace_def)

lemma parse_descriptor_text:
  "conninfo_parse_upto (Suc (Suc (Suc (Suc (Suc (Suc (Suc (Suc n))))))))
       (descriptor_text port (escaped store) (escaped usr) (escaped p) timeout)
     = Some [(''port'', dec_int port), (''dbname'', store), (''user'', usr), (''password'', p),
             (''connect_timeout'', dec_int timeout)]"
  unfolding descriptor_text_def
  by (simp only: parse_step_word [OF key_chars_descriptor(2) word_chars_dec_int]
      parse_step_quoted [OF key_chars_descriptor(3)]
      parse_step_quoted [OF key_chars_descriptor(4)]
      parse_step_quoted [OF key_chars_descriptor(5)]
      parse_step_last_word [OF key_chars_descriptor(6) word_chars_dec_int]
      parse_step_space option.map)

lemma parse_descriptor_text_host:
  "conninfo_parse_upto (Suc (Suc (Suc (Suc (Suc (Suc (Suc (Suc (Suc (Suc n))))))))))
       (descriptor_text_host (escaped ip) port (escaped store) (escaped usr) (escaped p) timeout)
     = Some [(''hostaddr'', ip), (''port'', dec_int port), (''dbname'', store), (''user'', usr),
             (''password'', p), (''connect_timeout'', dec_int timeout)]"
  unfolding descriptor_text_host_def
  by (simp only: parse_step_quoted [OF key_chars_descriptor(1)] parse_step_space
      parse_descriptor_text option.map)

lemma conninfo_parse_descriptor_text:
  "conninfo_parse (descriptor_text port (escaped store) (escaped usr) (escaped p) timeout)
     = Some [(''port'', dec_int port), (''dbname'', store), (''user'', usr), (''password'', p),
             (''connect_timeout'', dec_int timeout)]"
  unfolding conninfo_parse_def
  by (rule parse_upto_mono [OF parse_descriptor_text [of 0]]) (simp add: descriptor_text_def)

lemma conninfo_parse_descriptor_text_host:
  "conninfo_parse
       (descriptor_text_host (escaped ip) port (escaped store) (escaped usr) (escaped p) timeout)
     = Some [(''hostaddr'', ip), (''port'', dec_int port), (''dbname'', store), (''user'', usr),
             (''password'', p), (''connect_timeout'', dec_int timeout)]"
  unfolding conninfo_parse_def
  by (rule parse_upto_mono [OF parse_descriptor_text_host [of 0]])
    (simp add: descriptor_text_def descriptor_text_host_def)

lemma c_format_template2:
  "c_format template2 [Arg_d port, Arg_s store, Arg_s usr, Arg_s pq, Arg_d timeout]
     = Some (descriptor_text port store usr pq timeout)"
  by (simp add: template2_def descriptor_text_def)

lemma c_format_template1:
  "c_format template1 [Arg_s ip, Arg_d port, Arg_s store, Arg_s usr, Arg_s pq, Arg_d timeout]
     = Some (descriptor_text_host ip port store usr pq timeout)"
  by (simp add: template1_def descriptor_text_def descriptor_text_host_def)

text \<open>
  The account name goes between the quotes as it is: a quote in it ends the value, and
  what follows is read as a field of its own.
\<close>

lemma descriptor_text_injected:
  "descriptor_text port store (a @ CHR 0x27 # CHR '' '' # k @ '' = '' @ CHR 0x27 # v) pq timeout
     = ''port'' @ '' = '' @ dec_int port @ CHR '' '' #
       ''dbname'' @ '' = '' @ CHR 0x27 # store @ CHR 0x27 # CHR '' '' #
       ''user'' @ '' = '' @ CHR 0x27 # a @ CHR 0x27 # CHR '' '' #
       k @ '' = '' @ CHR 0x27 # v @ CHR 0x27 # CHR '' '' #
       ''password'' @ '' = '' @ CHR 0x27 # pq @ CHR 0x27 # CHR '' '' #
       ''connect_timeout'' @ '' = '' @ dec_int timeout"
  by (simp add: descriptor_text_def)

lemma parse_descriptor_text_injected:
  assumes "key_chars k"
  shows "conninfo_parse_upto (Suc (Suc (Suc (Suc (Suc (Suc (Suc (Suc (Suc (Suc n))))))))))
       (descriptor_text port (escaped store)
          (escaped a @ CHR 0x27 # CHR '' '' # k @ '' = '' @ CHR 0x27 # escaped v) (escaped p) timeout)
     = Some [(''port'', dec_int port), (''dbname'', store), (''user'', a), (k, v),
             (''password'', p), (''connect_timeout'', dec_int timeout)]"
  unfolding descriptor_text_injected
  by (simp only: parse_step_word [OF key_chars_descriptor(2) word_chars_dec_int]
      parse_step_quoted [OF key_chars_descriptor(3)]
      parse_step_quoted [OF key_chars_descriptor(4)]
      parse_step_quoted [OF assms]
      parse_step_quoted [OF key_chars_descriptor(5)]
      parse_step_last_word [OF key_chars_descriptor(6) word_chars_dec_int]
      parse_step_space option.map)

lemma conninfo_parse_descriptor_text_injected:
  assumes "key_chars k"
  shows "conninfo_parse
       (descriptor_text port (escaped store)
          (escaped a @ CHR 0x27 # CHR '' '' # k @ '' = '' @ CHR 0x27 # escaped v) (escaped p) timeout)
     = Some [(''port'', dec_int port), (''dbname'', store), (''user'', a), (k, v),
             (''password'', p), (''connect_timeout'', dec_int timeout)]"
  unfolding conninfo_parse_def
  by (rule parse_upto_mono [OF parse_descriptor_text_injected [OF assms, of 0]])
    (simp add: descriptor_text_def)

lemma length_escaped:
  "length (escaped p) = length p + length (filter (\<lambda>c. c = CHR 0x27 \<or> c = CHR 0x5C) p)"
  by (induction p) (simp_all add: escaped_Cons escaped_Nil)

lemma length_descriptor_text:
  "length (descriptor_text port store usr pq timeout)
     = 62 + length (dec_int port) + length store + length usr + length pq + length (dec_int timeout)"
  by (simp add: descriptor_text_def)

lemma length_descriptor_text_host:
  "length (descriptor_text_host ip port store usr pq timeout)
     = 76 + length ip + length (dec_int port) + length store + length usr + length pq
       + length (dec_int timeout)"
  by (simp add: descriptor_text_host_def length_descriptor_text)

lemma length_templates: "length template1 = 88" "length template2 = 72"
  by (simp_all add: template1_def template2_def)

lemma connect_string_no_host:
  assumes "pbs_get_dataservice_usr env = Inr usr"
    and "get_dataservice_password env usr = Inr p"
  shows "get_db_connect_string env None timeout err_code errmsg len =
     (if \<not> malloc_pquoted_ok env \<or> \<not> malloc_conn_info_ok env then Inr (None, PBS_DB_NOMEM, errmsg)
      else if length (dec_int (pbs_data_service_port env)) + length (escaped p)
                + length (dec_int timeout) \<le> length p + 41
      then Inr (Some (descriptor_text (pbs_data_service_port env) (PBS_DATA_SERVICE_STORE_NAME env)
                        usr (escaped p) timeout), err_code, errmsg)
      else Inl Buffer_overflow)"
proof -
  have "escape_passwd p (int (length p) * 2 + 1) = Inr (escaped p)"
    by (rule escape_passwd_fits) simp
  with assms show ?thesis
    by (simp add: get_db_connect_string_def Let_def sprintf_into_def c_format_template2
        length_templates length_descriptor_text)
qed

lemma connect_string_host:
  assumes "pbs_get_dataservice_usr env = Inr usr"
    and "get_dataservice_password env usr = Inr p"
    and "inet_ntoa (htonl (ucast (get_hostaddr env h))) = Some ip"
    and "length ip \<le> 15"
  shows "get_db_connect_string env (Some h) timeout err_code errmsg len =
     (if \<not> malloc_pquoted_ok env \<or> \<not> malloc_conn_info_ok env then Inr (None, PBS_DB_NOMEM, errmsg)
      else if get_hostaddr env h = 0
      then Inr (None, PBS_DB_CONNFAILED,
                snprintf_text errmsg len (''Could not resolve dataservice host '' @ h))
      else if length ip + length (dec_int (pbs_data_service_port env)) + length (escaped p)
                + length (dec_int timeout) \<le> length p + 42
      then Inr (Some (descriptor_text_host ip (pbs_data_service_port env)
                        (PBS_DATA_SERVICE_STORE_NAME env) usr (escaped p) timeout),
                err_code, errmsg)
      else Inl Buffer_overflow)"
proof -
  have "escape_passwd p (int (length p) * 2 + 1) = Inr (escaped p)"
    by (rule escape_passwd_fits) simp
  with assms show ?thesis
    by (simp add: get_db_connect_string_def Let_def sprintf_into_def c_format_template1
        length_templates length_descriptor_text_host IPV4_STR_LEN_def)
qed

text \<open>
  Claim C8, as amended. Let the account name and the password be available, and let the
  account name and the database name contain no single quote and no backslash (they are
  put between quotes as they are; only the password is escaped).
  \<^item> Without a host, a descriptor the function returns is the text \<open>descriptor_text\<close> with
    the escaped password, and read by the grammar of connection strings it consists of
    the fields port, dbname, user, password (the original password) and connect_timeout:
    there is no \<^verbatim>\<open>hostaddr\<close> field.
  \<^item> With a host, the function returns a descriptor only if the host resolves; the
    descriptor then starts with the field \<^verbatim>\<open>hostaddr\<close>, whose value is the dotted-decimal
    text of the resolved address, a well-formed IPv4 literal, followed by the same five
    fields.
  \<^item> The function does return a descriptor when both allocations succeed, port and
    timeout are 32-bit integers and the password has at most five quotes and backslashes
    (the buffer is sized from the unescaped password), with a host whenever it resolves.
\<close>
theorem connect_string_fields:
  assumes "pbs_get_dataservice_usr env = Inr usr"
    and "get_dataservice_password env usr = Inr p"
    and "CHR 0x27 \<notin> set usr \<and> CHR 0x5C \<notin> set usr"
    and "CHR 0x27 \<notin> set (PBS_DATA_SERVICE_STORE_NAME env)
         \<and> CHR 0x5C \<notin> set (PBS_DATA_SERVICE_STORE_NAME env)"
  shows
    "(\<forall>d ec em.
        get_db_connect_string env None timeout err_code errmsg len = Inr (Some d, ec, em) \<longrightarrow>
        d = descriptor_text (pbs_data_service_port env) (PBS_DATA_SERVICE_STORE_NAME env) usr
              (escaped p) timeout \<and>
        (\<exists>fields. conninfo_parse d = Some fields \<and>
           ''hostaddr'' \<notin> fst ` set fields \<and>
           fields = [(''port'', dec_int (pbs_data_service_port env)),
                     (''dbname'', PBS_DATA_SERVICE_STORE_NAME env),
                     (''user'', usr), (''password'', p),
                     (''connect_timeout'', dec_int timeout)])) \<and>
     (\<forall>h d ec em.
        get_db_connect_string env (Some h) timeout err_code errmsg len = Inr (Some d, ec, em) \<longrightarrow>
        get_hostaddr env h \<noteq> 0 \<and>
        (\<exists>ip. inet_ntoa (htonl (ucast (get_hostaddr env h))) = Some ip \<and> ipv4_literal ip \<and>
           d = descriptor_text_host ip (pbs_data_service_port env)
                 (PBS_DATA_SERVICE_STORE_NAME env) usr (escaped p) timeout \<and>
           conninfo_parse d =
             Some [(''hostaddr'', ip),
                   (''port'', dec_int (pbs_data_service_port env)),
                   (''dbname'', PBS_DATA_SERVICE_STORE_NAME env),
                   (''user'', usr), (''password'', p),
                   (''connect_timeout'', dec_int timeout)])) \<and>
     (malloc_pquoted_ok env \<and> malloc_conn_info_ok env \<and>
      length (filter (\<lambda>c. c = CHR 0x27 \<or> c = CHR 0x5C) p) \<le> 5 \<and>
      - (2 ^ 31) \<le> pbs_data_service_port env \<and> pbs_data_service_port env < 2 ^ 31 \<and>
      - (2 ^ 31) \<le> timeout \<and> timeout < 2 ^ 31 \<longrightarrow>
        (\<exists>d. get_db_connect_string env None timeout err_code errmsg len
                = Inr (Some d, err_code, errmsg)) \<and>
        (\<forall>h. get_hostaddr env h \<noteq> 0 \<longrightarrow>
           (\<exists>d. get_db_connect_string env (Some h) timeout err_code errmsg len
                   = Inr (Some d, err_code, errmsg))))"
proof (intro conjI allI impI)
  let ?port = "pbs_data_service_port env" and ?store = "PBS_DATA_SERVICE_STORE_NAME env"
  have plain: "escaped usr = usr" "escaped ?store = ?store"
    using assms(3,4) by (simp_all add: escaped_plain)
  {
    fix d ec em
    assume "get_db_connect_string env None timeout err_code errmsg len = Inr (Some d, ec, em)"
    then have d: "d = descriptor_text ?port (escaped ?store) (escaped usr) (escaped p) timeout"
      unfolding connect_string_no_host [OF assms(1,2)] plain
      by (simp split: if_splits)
    then show "d = descriptor_text ?port ?store usr (escaped p) timeout"
      by (simp only: plain)
    from d have "conninfo_parse d =
        Some [(''port'', dec_int ?port), (''dbname'', ?store), (''user'', usr), (''password'', p),
              (''connect_timeout'', dec_int timeout)]"
      by (simp only: conninfo_parse_descriptor_text)
    then show "\<exists>fields. conninfo_parse d = Some fields \<and>
           ''hostaddr'' \<notin> fst ` set fields \<and>
           fields = [(''port'', dec_int ?port), (''dbname'', ?store),
                     (''user'', usr), (''password'', p),
                     (''connect_timeout'', dec_int timeout)]"
      by simp
  }
  {
    fix h d ec em
    assume r: "get_db_connect_string env (Some h) timeout err_code errmsg len = Inr (Some d, ec, em)"
    obtain ip where ip: "inet_ntoa (htonl (ucast (get_hostaddr env h))) = Some ip"
      "ipv4_literal ip" "length ip \<le> 15" "CHR 0x27 \<notin> set ip \<and> CHR 0x5C \<notin> set ip"
      using inet_ntoa_htonl by blast
    then have eip: "escaped ip = ip" by (simp add: escaped_plain)
    from r show "get_hostaddr env h \<noteq> 0"
      unfolding connect_string_host [OF assms(1,2) ip(1,3)]
      by (simp split: if_splits)
    from r have d: "d = descriptor_text_host (escaped ip) ?port (escaped ?store) (escaped usr)
        (escaped p) timeout"
      unfolding connect_string_host [OF assms(1,2) ip(1,3)] plain eip
      by (simp split: if_splits)
    then have d': "d = descriptor_text_host ip ?port ?store usr (escaped p) timeout"
      by (simp only: plain eip)
    from d have "conninfo_parse d =
        Some [(''hostaddr'', ip), (''port'', dec_int ?port), (''dbname'', ?store), (''user'', usr),
              (''password'', p), (''connect_timeout'', dec_int timeout)]"
      by (simp only: conninfo_parse_descriptor_text_host)
    with ip(1,2) d' show "\<exists>ip. inet_ntoa (htonl (ucast (get_hostaddr env h))) = Some ip \<and>
           ipv4_literal ip \<and>
           d = descriptor_text_host ip ?port ?store usr (escaped p) timeout \<and>
           conninfo_parse d =
             Some [(''hostaddr'', ip), (''port'', dec_int ?port), (''dbname'', ?store),
                   (''user'', usr), (''password'', p), (''connect_timeout'', dec_int timeout)]"
      by blast
  }
  assume ok: "malloc_pquoted_ok env \<and> malloc_conn_info_ok env \<and>
      length (filter (\<lambda>c. c = CHR 0x27 \<or> c = CHR 0x5C) p) \<le> 5 \<and>
      - (2 ^ 31) \<le> ?port \<and> ?port < 2 ^ 31 \<and> - (2 ^ 31) \<le> timeout \<and> timeout < 2 ^ 31"
  then have lens: "length (dec_int ?port) \<le> 11" "length (dec_int timeout) \<le> 11"
    "length (escaped p) \<le> length p + 5"
    by (simp_all add: length_dec_int length_escaped)
  with ok show "\<exists>d. get_db_connect_string env None timeout err_code errmsg len
                = Inr (Some d, err_code, errmsg)"
    unfolding connect_string_no_host [OF assms(1,2)] by simp
  {
    fix h
    assume h: "get_hostaddr env h \<noteq> 0"
    obtain ip where ip: "inet_ntoa (htonl (ucast (get_hostaddr env h))) = Some ip"
      "length ip \<le> 15"
      using inet_ntoa_htonl by blast
    with ok lens h show "\<exists>d. get_db_connect_string env (Some h) timeout err_code errmsg len
                   = Inr (Some d, err_code, errmsg)"
      unfolding connect_string_host [OF assms(1,2) ip] by simp
  }
qed

lemma sample_numbers:
  "dec_int 15007 = ''15007''" "dec_int 30 = ''30''"
  "inet_ntoa (htonl (ucast (0xC0A80A05 :: 64 word))) = Some ''192.168.10.5''"
  "inet_ntoa (htonl 0xC0A80A05) = Some ''192.168.10.5''"
  by (simp_all add: dec_int_def dec_nat.simps digit_char_def inet_ntoa_def htonl_def)

text \<open>
  The amended claim C8 for the sample installation, with a quote in the password, with
  the host 192.168.10.5 and without a host.
\<close>

theorem connect_string_fields_witness:
  "(\<exists>d. get_db_connect_string (sample_connect_env ''p'w'') (Some ''dbhost'') 30 PBS_DB_SUCCESS [] 100
          = Inr (Some d, PBS_DB_SUCCESS, []) \<and>
        conninfo_parse d =
          Some [(''hostaddr'', ''192.168.10.5''), (''port'', ''15007''),
                (''dbname'', ''pbs_datastore''), (''user'', ''pbsdata''), (''password'', ''p'w''),
                (''connect_timeout'', ''30'')]) \<and>
   (\<exists>d. get_db_connect_string (sample_connect_env ''p'w'') None 30 PBS_DB_SUCCESS [] 100
          = Inr (Some d, PBS_DB_SUCCESS, []) \<and>
        conninfo_parse d =
          Some [(''port'', ''15007''), (''dbname'', ''pbs_datastore''), (''user'', ''pbsdata''),
                (''password'', ''p'w''), (''connect_timeout'', ''30'')])"
proof -
  let ?env = "sample_connect_env ''p'w''"
  have 1: "pbs_get_dataservice_usr ?env = Inr ''pbsdata''"
    and 2: "get_dataservice_password ?env ''pbsdata'' = Inr ''p'w''"
    and 3: "CHR 0x27 \<notin> set ''pbsdata'' \<and> CHR 0x5C \<notin> set ''pbsdata''"
    and 4: "CHR 0x27 \<notin> set (PBS_DATA_SERVICE_STORE_NAME ?env)
         \<and> CHR 0x5C \<notin> set (PBS_DATA_SERVICE_STORE_NAME ?env)"
    by (simp_all add: sample_connect_env_def)
  have 5: "malloc_pquoted_ok ?env \<and> malloc_conn_info_ok ?env \<and>
      length (filter (\<lambda>c. c = CHR 0x27 \<or> c = CHR 0x5C) ''p'w'') \<le> 5 \<and>
      - (2 ^ 31) \<le> pbs_data_service_port ?env \<and> pbs_data_service_port ?env < 2 ^ 31 \<and>
      - (2 ^ 31) \<le> (30 :: int) \<and> (30 :: int) < 2 ^ 31"
    by (simp add: sample_connect_env_def)
  have 6: "get_hostaddr ?env ''dbhost'' \<noteq> 0" "get_hostaddr ?env ''dbhost'' = 0xC0A80A05"
    "pbs_data_service_port ?env = 15007" "PBS_DATA_SERVICE_STORE_NAME ?env = ''pbs_datastore''"
    by (simp_all add: sample_connect_env_def)
  note t = connect_string_fields [OF 1 2 3 4, of 30 PBS_DB_SUCCESS "[]" 100]
  from t 5 6(1) obtain d1 d2 where
    d1: "get_db_connect_string ?env (Some ''dbhost'') 30 PBS_DB_SUCCESS [] 100
          = Inr (Some d1, PBS_DB_SUCCESS, [])"
    and d2: "get_db_connect_string ?env None 30 PBS_DB_SUCCESS [] 100
          = Inr (Some d2, PBS_DB_SUCCESS, [])"
    by blast
  from t [THEN conjunct2, THEN conjunct1, rule_format, OF d1]
  obtain ip where "inet_ntoa (htonl (ucast (get_hostaddr ?env ''dbhost''))) = Some ip"
    and p1: "conninfo_parse d1 =
          Some [(''hostaddr'', ip), (''port'', dec_int (pbs_data_service_port ?env)),
                (''dbname'', PBS_DATA_SERVICE_STORE_NAME ?env), (''user'', ''pbsdata''),
                (''password'', ''p'w''), (''connect_timeout'', dec_int 30)]"
    by blast
  then have "ip = ''192.168.10.5''"
    by (simp add: 6 sample_numbers)
  with p1 have "conninfo_parse d1 =
          Some [(''hostaddr'', ''192.168.10.5''), (''port'', ''15007''),
                (''dbname'', ''pbs_datastore''), (''user'', ''pbsdata''), (''password'', ''p'w''),
                (''connect_timeout'', ''30'')]"
    by (simp add: 6 sample_numbers)
  moreover from t [THEN conjunct1, rule_format, OF d2]
  have "conninfo_parse d2 =
          Some [(''port'', ''15007''), (''dbname'', ''pbs_datastore''), (''user'', ''pbsdata''),
                (''password'', ''p'w''), (''connect_timeout'', ''30'')]"
    by (auto simp: 6 sample_numbers)
  ultimately show ?thesis using d1 d2 by blast
qed

lemma sample_descriptor_injected:
  "descriptor_text 15007 ''pbs_datastore'' ''a' hostaddr = '6.6.6.6'' ''pw'' 30
     = ''port = 15007 dbname = 'pbs_datastore' user = 'a' hostaddr = '6.6.6.6' password = 'pw' connect_timeout = 30''"
  by (simp add: descriptor_text_def sample_numbers)

text \<open>
  Claim C8 as stated fails: for the account name \<^verbatim>\<open>a' hostaddr = '6.6.6.6\<close> and no host,
  the descriptor returned has a \<^verbatim>\<open>hostaddr\<close> field.
\<close>

theorem connect_string_fields_counterexample:
  "get_db_connect_string (sample_connect_env_account ''a' hostaddr = '6.6.6.6'' ''pw'') None 30
      PBS_DB_SUCCESS [] 100
     = Inr (Some ''port = 15007 dbname = 'pbs_datastore' user = 'a' hostaddr = '6.6.6.6' password = 'pw' connect_timeout = 30'',
            PBS_DB_SUCCESS, []) \<and>
   conninfo_parse
     ''port = 15007 dbname = 'pbs_datastore' user = 'a' hostaddr = '6.6.6.6' password = 'pw' connect_timeout = 30''
     = Some [(''port'', ''15007''), (''dbname'', ''pbs_datastore''), (''user'', ''a''),
             (''hostaddr'', ''6.6.6.6''), (''password'', ''pw''), (''connect_timeout'', ''30'')]"
proof -
  let ?usr = "''a' hostaddr = '6.6.6.6''"
  let ?env = "sample_connect_env_account ?usr ''pw''"
  have 1: "pbs_get_dataservice_usr ?env = Inr ?usr"
    and 2: "get_dataservice_password ?env ?usr = Inr ''pw''"
    by (simp_all add: sample_connect_env_account_def sample_connect_env_def)
  have e: "escaped ''pw'' = ''pw''" "escaped ''pbs_datastore'' = ''pbs_datastore''"
    "escaped ''a'' = ''a''" "escaped ''6.6.6.6'' = ''6.6.6.6''"
    by (simp_all add: escaped_def)
  have r: "get_db_connect_string ?env None 30 PBS_DB_SUCCESS [] 100
     = Inr (Some (descriptor_text 15007 ''pbs_datastore'' ?usr ''pw'' 30), PBS_DB_SUCCESS, [])"
    unfolding connect_string_no_host [OF 1 2]
    by (simp add: e sample_connect_env_account_def sample_connect_env_def sample_numbers)
  have "conninfo_parse (descriptor_text 15007 (escaped ''pbs_datastore'')
          (escaped ''a'' @ CHR 0x27 # CHR '' '' # ''hostaddr'' @ '' = '' @ CHR 0x27 # escaped ''6.6.6.6'')
          (escaped ''pw'') 30)
     = Some [(''port'', dec_int 15007), (''dbname'', ''pbs_datastore''), (''user'', ''a''),
             (''hostaddr'', ''6.6.6.6''), (''password'', ''pw''), (''connect_timeout'', dec_int 30)]"
    by (rule conninfo_parse_descriptor_text_injected [OF key_chars_descriptor(1)])
  then have p: "conninfo_parse (descriptor_text 15007 ''pbs_datastore'' ?usr ''pw'' 30)
     = Some [(''port'', ''15007''), (''dbname'', ''pbs_datastore''), (''user'', ''a''),
             (''hostaddr'', ''6.6.6.6''), (''password'', ''pw''), (''connect_timeout'', ''30'')]"
    by (simp add: e sample_numbers)
  from r p show ?thesis by (simp only: sample_descriptor_injected)
qed

text \<open>
  The buffer for the descriptor is sized with the length of the unescaped password. A
  password of 24 quotes makes the text one byte longer than the buffer.
\<close>

lemma sample_connect_string_overflow:
  "get_db_connect_string (sample_connect_env (replicate 24 (CHR 0x27))) (Some ''dbhost'') 30
      PBS_DB_SUCCESS [] 100 = Inl Buffer_overflow"
proof -
  let ?env = "sample_connect_env (replicate 24 (CHR 0x27))"
  have 1: "pbs_get_dataservice_usr ?env = Inr ''pbsdata''"
    and 2: "get_dataservice_password ?env ''pbsdata'' = Inr (replicate 24 (CHR 0x27))"
    and 3: "inet_ntoa (htonl (ucast (get_hostaddr ?env ''dbhost''))) = Some ''192.168.10.5''"
    by (simp_all add: sample_connect_env_def sample_numbers)
  have 4: "length ''192.168.10.5'' \<le> 15" by simp
  have 5: "length (escaped (replicate 24 (CHR 0x27))) = 48"
    by (simp add: length_escaped)
  show ?thesis
    unfolding connect_string_host [OF 1 2 3 4]
    by (simp add: 5 sample_connect_env_def sample_numbers)
qed

end
